theory Spec2Isabelle
  imports Main "HOL-Library.Word"
begin

section \<open>ListInMemory of util/chunk/list.go\<close>

text \<open>
  A shallow embedding of \<^verbatim>\<open>util/chunk/list.go\<close>. The list is a record that every
  method takes and returns; a Go run-time panic is the left summand of the result.
  Go's \<^verbatim>\<open>int\<close> (64 bits) is \<open>int\<close>: the counters and indices of the list are
  bounded by the number of rows and chunks held in memory. The two fields of \<^verbatim>\<open>RowPtr\<close>
  are \<^verbatim>\<open>uint32\<close>, and the conversions \<^verbatim>\<open>uint32(chkIdx)\<close>, \<^verbatim>\<open>uint32(rowIdx)\<close>
  truncate: they are \<open>32 word\<close>.

  The list holds \<^verbatim>\<open>*Chunk\<close> pointers. \<^verbatim>\<open>Add\<close> takes a chunk that, by its contract, is
  "not used any more" by the caller, and every other chunk is made by the list itself, so
  no two slots of \<^verbatim>\<open>chunks\<close> and \<^verbatim>\<open>freelist\<close> share a chunk and chunks are held by
  value.
\<close>

subsection \<open>Panics\<close>

datatype panic = IndexOutOfRange

text \<open>Go's \<^verbatim>\<open>xs[i]\<close>: a run-time panic when \<open>i\<close> is out of range.\<close>

definition index :: "'a list \<Rightarrow> int \<Rightarrow> panic + 'a" where
  "index xs i = (if 0 \<le> i \<and> i < int (length xs) then Inr (xs ! nat i) else Inl IndexOutOfRange)"

subsection \<open>Chunk, memory tracker and errors: what list.go consumes\<close>

text \<open>
  \<^verbatim>\<open>chunk.go\<close>, the \<^verbatim>\<open>memory\<close> package and the \<^verbatim>\<open>errors\<close> package are not among the
  sources. The definitions of this subsection follow the interface that the specification
  gives for them.
\<close>

text \<open>
  Modelled from the spec: the type \<^verbatim>\<open>Chunk\<close> is missing. "Block: a fixed-capacity mutable
  sequence of rows with a queryable row count, capacity, and current memory footprint";
  "immutable schema, fixed capacity".
\<close>

record ('f, 'r) Chunk =
  schema :: "'f list"
  rows :: "'r list"
  capacity :: int

text \<open>Modelled from the spec: \<^verbatim>\<open>Chunk.NumRows\<close> is missing; "rowCount()".\<close>

definition NumRows :: "('f, 'r) Chunk \<Rightarrow> int" where
  "NumRows c = int (length (rows c))"

text \<open>Modelled from the spec: \<^verbatim>\<open>Chunk.Capacity\<close> is missing; "capacity()".\<close>

definition Capacity :: "('f, 'r) Chunk \<Rightarrow> int" where
  "Capacity c = capacity c"

text \<open>
  Modelled from the spec: \<^verbatim>\<open>Chunk.MemoryUsage\<close> is missing; "a footprint value in bytes
  that may exceed the bytes used by current rows (pre-sized storage)". The list's methods
  take the footprint function as their first argument \<open>mu\<close>; \<open>slotUsage\<close> is one such
  function, eight bytes for each slot that is pre-sized or used, for the closed examples.
\<close>

type_synonym ('f, 'r) MemoryUsage = "('f, 'r) Chunk \<Rightarrow> int"

definition slotUsage :: "('f, 'r) MemoryUsage" where
  "slotUsage c = 8 * max (Capacity c) (NumRows c)"

text \<open>Modelled from the spec: \<^verbatim>\<open>Chunk.AppendRow\<close> is missing; "appendRow(row)".\<close>

definition Chunk_AppendRow :: "('f, 'r) Chunk \<Rightarrow> 'r \<Rightarrow> ('f, 'r) Chunk" where
  "Chunk_AppendRow c row = c\<lparr>rows := rows c @ [row]\<rparr>"

text \<open>
  Modelled from the spec: \<^verbatim>\<open>Chunk.GetRow\<close> is missing; "getRow(offset)", "out-of-range
  access is a caller precondition violation".
\<close>

definition Chunk_GetRow :: "('f, 'r) Chunk \<Rightarrow> int \<Rightarrow> panic + 'r" where
  "Chunk_GetRow c idx = index (rows c) idx"

text \<open>
  Modelled from the spec: \<^verbatim>\<open>Chunk.Reset\<close> is missing; "resetToEmpty() (clears rows,
  retains capacity/identity)".
\<close>

definition Chunk_Reset :: "('f, 'r) Chunk \<Rightarrow> ('f, 'r) Chunk" where
  "Chunk_Reset c = c\<lparr>rows := []\<rparr>"

text \<open>
  Modelled from the spec: \<^verbatim>\<open>chunk.New\<close> is missing; "newBlock(schema, capacity)",
  "create a fresh Block with initialCapacity".
\<close>

definition New :: "'f list \<Rightarrow> int \<Rightarrow> int \<Rightarrow> ('f, 'r) Chunk" where
  "New fieldTypes' cap maxChunkSize' = \<lparr>schema = fieldTypes', rows = [], capacity = cap\<rparr>"

text \<open>
  Modelled from the spec: \<^verbatim>\<open>chunk.Renew\<close> is missing; "growFrom(previousBlock,
  maxCapacity)", "a new Block whose capacity is min(2 * lastBlock.capacity, maxCapacity),
  sharing schema".
\<close>

definition Renew :: "('f, 'r) Chunk \<Rightarrow> int \<Rightarrow> ('f, 'r) Chunk" where
  "Renew chk maxChunkSize' =
     \<lparr>schema = schema chk, rows = [], capacity = min (2 * Capacity chk) maxChunkSize'\<rparr>"

text \<open>
  Modelled from the spec: \<^verbatim>\<open>Chunk.preAlloc\<close> is missing; "writes placeholder content sized
  like shapeHint, without requiring final values". The placeholder written for a shape
  hint is the parameter \<open>ph\<close>; the result is the offset of the reserved slot.
\<close>

definition preAlloc :: "('r \<Rightarrow> 'r) \<Rightarrow> ('f, 'r) Chunk \<Rightarrow> 'r \<Rightarrow> int \<times> ('f, 'r) Chunk" where
  "preAlloc ph c row = (NumRows c, c\<lparr>rows := rows c @ [ph row]\<rparr>)"

text \<open>
  Modelled from the spec: \<^verbatim>\<open>Chunk.insert\<close> is missing; "overwrites the reserved slot's
  content with final values".
\<close>

definition insert_row :: "('f, 'r) Chunk \<Rightarrow> int \<Rightarrow> 'r \<Rightarrow> panic + ('f, 'r) Chunk" where
  "insert_row c rowIdx row =
     (if 0 \<le> rowIdx \<and> rowIdx < NumRows c then Inr (c\<lparr>rows := (rows c)[nat rowIdx := row]\<rparr>)
      else Inl IndexOutOfRange)"

text \<open>
  Modelled from the spec: \<^verbatim>\<open>memory.Tracker\<close> is missing; "accepts signed deltas to a
  running consumption total". The tracker is the sequence of the deltas it was given,
  oldest first, and its total is their sum.
\<close>

type_synonym Tracker = "int list"

definition NewTracker :: Tracker where
  "NewTracker = []"

definition Consume :: "int \<Rightarrow> Tracker \<Rightarrow> Tracker" where
  "Consume bytes t = t @ [bytes]"

definition BytesConsumed :: "Tracker \<Rightarrow> int" where
  "BytesConsumed t = sum_list t"

text \<open>
  Modelled from the spec: the \<^verbatim>\<open>errors\<close> package is missing. \<^verbatim>\<open>errors.New\<close> makes an
  error from its message; \<^verbatim>\<open>errors.Trace\<close> returns the error "wrapped with context".
\<close>

datatype error = errors_New string

datatype 'e traced = Trace 'e

subsection \<open>The list\<close>

text \<open>
  The fields of \<^verbatim>\<open>ListInMemory\<close>; the field \<^verbatim>\<open>length\<close> is \<open>length'\<close>, and \<^verbatim>\<open>memTracker\<close>
  holds the tracker itself.
\<close>

record ('f, 'r) ListInMemory =
  fieldTypes :: "'f list"
  initChunkSize :: int
  maxChunkSize :: int
  length' :: int
  chunks :: "('f, 'r) Chunk list"
  freelist :: "('f, 'r) Chunk list"
  memTracker :: Tracker
  consumedIdx :: int

record RowPtr =
  ChkIdx :: "32 word"
  RowIdx :: "32 word"

definition NewListInMemory :: "'f list \<Rightarrow> int \<Rightarrow> int \<Rightarrow> ('f, 'r) ListInMemory" where
  "NewListInMemory fieldTypes' initChunkSize' maxChunkSize' =
     \<lparr>fieldTypes = fieldTypes', initChunkSize = initChunkSize', maxChunkSize = maxChunkSize',
      length' = 0, chunks = [], freelist = [], memTracker = NewTracker, consumedIdx = -1\<rparr>"

definition GetMemTracker :: "('f, 'r) ListInMemory \<Rightarrow> Tracker" where
  "GetMemTracker l = memTracker l"

definition Len :: "('f, 'r) ListInMemory \<Rightarrow> int" where
  "Len l = length' l"

definition NumChunks :: "('f, 'r) ListInMemory \<Rightarrow> int" where
  "NumChunks l = int (length (chunks l))"

definition GetChunk :: "('f, 'r) ListInMemory \<Rightarrow> int \<Rightarrow> panic + ('f, 'r) Chunk" where
  "GetChunk l chkIdx = index (chunks l) chkIdx"

definition NumRowsOfChunk :: "('f, 'r) ListInMemory \<Rightarrow> int \<Rightarrow> panic + int" where
  "NumRowsOfChunk l chkID = (case GetChunk l chkID of Inl p \<Rightarrow> Inl p | Inr c \<Rightarrow> Inr (NumRows c))"

text \<open>
  \<^verbatim>\<open>allocChunk\<close>: the chunk it returns and the list it leaves. The footprint given back
  to the tracker is read before \<^verbatim>\<open>chk.Reset()\<close>.
\<close>

definition allocChunk ::
  "('f, 'r) MemoryUsage \<Rightarrow> ('f, 'r) ListInMemory \<Rightarrow> ('f, 'r) Chunk \<times> ('f, 'r) ListInMemory" where
  "allocChunk mu l =
     (if length (freelist l) > 0 then
        (let lastIdx = length (freelist l) - 1;
             chk = freelist l ! lastIdx;
             l1 = l\<lparr>freelist := take lastIdx (freelist l)\<rparr>;
             l2 = l1\<lparr>memTracker := Consume (- mu chk) (memTracker l1)\<rparr>
         in (Chunk_Reset chk, l2))
      else if length (chunks l) > 0 then
        (Renew (chunks l ! (length (chunks l) - 1)) (maxChunkSize l), l)
      else (New (fieldTypes l) (initChunkSize l) (maxChunkSize l), l))"

text \<open>
  Lines 91 to 97 of \<^verbatim>\<open>AppendRow\<close>, which are lines 171 to 177 of \<^verbatim>\<open>preAlloc4Row\<close>:
  a chunk is allocated and pushed, the chunk at \<open>chkIdx\<close> is charged unless \<open>chkIdx\<close> is
  \<open>consumedIdx\<close>, and \<open>chkIdx\<close> is incremented. \<^verbatim>\<open>l.chunks[chkIdx]\<close> panics when
  \<open>chkIdx\<close> is -1.
\<close>

definition pushChunk ::
  "('f, 'r) MemoryUsage \<Rightarrow> int \<Rightarrow> ('f, 'r) ListInMemory \<Rightarrow> panic + int \<times> ('f, 'r) ListInMemory" where
  "pushChunk mu chkIdx l =
     (let (newChk, l1) = allocChunk mu l;
          l2 = l1\<lparr>chunks := chunks l1 @ [newChk]\<rparr>
      in if chkIdx \<noteq> consumedIdx l2 then
           (case index (chunks l2) chkIdx of
              Inl p \<Rightarrow> Inl p
            | Inr c \<Rightarrow>
                Inr (chkIdx + 1,
                     l2\<lparr>memTracker := Consume (mu c) (memTracker l2), consumedIdx := chkIdx\<rparr>))
         else Inr (chkIdx + 1, l2))"

text \<open>The condition of line 90, with Go's short-circuit \<^verbatim>\<open>||\<close>.\<close>

definition needsChunk :: "('f, 'r) ListInMemory \<Rightarrow> bool" where
  "needsChunk l =
     (let chkIdx = int (length (chunks l)) - 1 in
      chkIdx = -1 \<or> NumRows (chunks l ! nat chkIdx) \<ge> Capacity (chunks l ! nat chkIdx)
        \<or> chkIdx = consumedIdx l)"

definition AppendRow ::
  "('f, 'r) MemoryUsage \<Rightarrow> 'r \<Rightarrow> ('f, 'r) ListInMemory \<Rightarrow> panic + RowPtr \<times> ('f, 'r) ListInMemory" where
  "AppendRow mu row l =
     (let chkIdx = int (length (chunks l)) - 1 in
      case (if needsChunk l then pushChunk mu chkIdx l else Inr (chkIdx, l)) of
        Inl p \<Rightarrow> Inl p
      | Inr (chkIdx', l') \<Rightarrow>
          (let chk = chunks l' ! nat chkIdx';
               rowIdx = NumRows chk;
               l'' = l'\<lparr>chunks := (chunks l')[nat chkIdx' := Chunk_AppendRow chk row],
                        length' := length' l' + 1\<rparr>
           in Inr (\<lparr>ChkIdx = word_of_int chkIdx', RowIdx = word_of_int rowIdx\<rparr>, l'')))"

definition ErrEmptyChunk :: error where
  "ErrEmptyChunk = errors_New ''chunk appended to ListInMemory should have at least 1 row''"

definition Add ::
  "('f, 'r) MemoryUsage \<Rightarrow> ('f, 'r) Chunk \<Rightarrow> ('f, 'r) ListInMemory
     \<Rightarrow> panic + error option \<times> ('f, 'r) ListInMemory" where
  "Add mu chk l =
     (if NumRows chk = 0 then Inr (Some ErrEmptyChunk, l)
      else
        (let chkIdx = int (length (chunks l)) - 1 in
         case (if consumedIdx l \<noteq> chkIdx then
                 (case index (chunks l) chkIdx of
                    Inl p \<Rightarrow> Inl p
                  | Inr c \<Rightarrow>
                      Inr (l\<lparr>memTracker := Consume (mu c) (memTracker l), consumedIdx := chkIdx\<rparr>))
               else Inr l) of
           Inl p \<Rightarrow> Inl p
         | Inr l1 \<Rightarrow>
             Inr (None,
                  l1\<lparr>memTracker := Consume (mu chk) (memTracker l1),
                     consumedIdx := consumedIdx l1 + 1,
                     chunks := chunks l1 @ [chk],
                     length' := length' l1 + NumRows chk\<rparr>)))"

text \<open>\<^verbatim>\<open>GetRow\<close> returns the row and an error that is always \<^verbatim>\<open>nil\<close>.\<close>

definition GetRow :: "('f, 'r) ListInMemory \<Rightarrow> RowPtr \<Rightarrow> panic + 'r \<times> error option" where
  "GetRow l ptr =
     (case index (chunks l) (uint (ChkIdx ptr)) of
        Inl p \<Rightarrow> Inl p
      | Inr chk \<Rightarrow>
          (case Chunk_GetRow chk (uint (RowIdx ptr)) of
             Inl p \<Rightarrow> Inl p
           | Inr row \<Rightarrow> Inr (row, None)))"

definition Reset :: "('f, 'r) MemoryUsage \<Rightarrow> ('f, 'r) ListInMemory \<Rightarrow> panic + ('f, 'r) ListInMemory" where
  "Reset mu l =
     (let lastIdx = int (length (chunks l)) - 1 in
      case (if lastIdx \<noteq> consumedIdx l then
              (case index (chunks l) lastIdx of
                 Inl p \<Rightarrow> Inl p
               | Inr c \<Rightarrow> Inr (l\<lparr>memTracker := Consume (mu c) (memTracker l)\<rparr>))
            else Inr l) of
        Inl p \<Rightarrow> Inl p
      | Inr l1 \<Rightarrow>
          Inr (l1\<lparr>freelist := freelist l1 @ chunks l1, chunks := [], length' := 0,
                  consumedIdx := -1\<rparr>))"

text \<open>The condition of line 170: the condition of line 90 without its third disjunct.\<close>

definition needsChunk4Row :: "('f, 'r) ListInMemory \<Rightarrow> bool" where
  "needsChunk4Row l =
     (let chkIdx = int (length (chunks l)) - 1 in
      chkIdx = -1 \<or> NumRows (chunks l ! nat chkIdx) \<ge> Capacity (chunks l ! nat chkIdx))"

definition preAlloc4Row ::
  "('f, 'r) MemoryUsage \<Rightarrow> ('r \<Rightarrow> 'r) \<Rightarrow> 'r \<Rightarrow> ('f, 'r) ListInMemory
     \<Rightarrow> panic + RowPtr \<times> ('f, 'r) ListInMemory" where
  "preAlloc4Row mu ph row l =
     (let chkIdx = int (length (chunks l)) - 1 in
      case (if needsChunk4Row l then pushChunk mu chkIdx l else Inr (chkIdx, l)) of
        Inl p \<Rightarrow> Inl p
      | Inr (chkIdx', l') \<Rightarrow>
          (let chk = chunks l' ! nat chkIdx';
               (rowIdx, chk') = preAlloc ph chk row;
               l'' = l'\<lparr>chunks := (chunks l')[nat chkIdx' := chk'], length' := length' l' + 1\<rparr>
           in Inr (\<lparr>ChkIdx = word_of_int chkIdx', RowIdx = word_of_int rowIdx\<rparr>, l'')))"

definition Insert :: "RowPtr \<Rightarrow> 'r \<Rightarrow> ('f, 'r) ListInMemory \<Rightarrow> panic + ('f, 'r) ListInMemory" where
  "Insert ptr row l =
     (case index (chunks l) (uint (ChkIdx ptr)) of
        Inl p \<Rightarrow> Inl p
      | Inr chk \<Rightarrow>
          (case insert_row chk (uint (RowIdx ptr)) row of
             Inl p \<Rightarrow> Inl p
           | Inr chk' \<Rightarrow> Inr (l\<lparr>chunks := (chunks l)[unat (ChkIdx ptr) := chk']\<rparr>)))"

text \<open>
  \<^verbatim>\<open>ListWalkFunc\<close> is a Go closure: what it returns may depend on what it has seen,
  so a visitor takes and returns its own state \<open>'s\<close> beside the row.
\<close>

type_synonym ('r, 'e, 's) ListWalkFunc = "'r \<Rightarrow> 's \<Rightarrow> 'e option \<times> 's"

text \<open>The inner loop of \<^verbatim>\<open>Walk\<close>, from offset \<open>j\<close> of chunk \<open>chk\<close>.\<close>

function walkRows ::
  "('r, 'e, 's) ListWalkFunc \<Rightarrow> ('f, 'r) Chunk \<Rightarrow> int \<Rightarrow> 's \<Rightarrow> panic + 'e traced option \<times> 's" where
  "walkRows walkFunc chk j s =
     (if j < NumRows chk then
        (case Chunk_GetRow chk j of
           Inl p \<Rightarrow> Inl p
         | Inr row \<Rightarrow>
             (case walkFunc row s of
                (Some err, s') \<Rightarrow> Inr (Some (Trace err), s')
              | (None, s') \<Rightarrow> walkRows walkFunc chk (j + 1) s'))
      else Inr (None, s))"
  by pat_completeness auto
termination
  by (relation "measure (\<lambda>(walkFunc, chk, j, s). nat (NumRows chk - j))") auto

text \<open>The outer loop of \<^verbatim>\<open>Walk\<close>, from chunk \<open>i\<close>.\<close>

function walkChunks ::
  "('r, 'e, 's) ListWalkFunc \<Rightarrow> ('f, 'r) ListInMemory \<Rightarrow> int \<Rightarrow> 's \<Rightarrow> panic + 'e traced option \<times> 's" where
  "walkChunks walkFunc l i s =
     (if i < int (length (chunks l)) then
        (case index (chunks l) i of
           Inl p \<Rightarrow> Inl p
         | Inr chk \<Rightarrow>
             (case walkRows walkFunc chk 0 s of
                Inl p \<Rightarrow> Inl p
              | Inr (Some err, s') \<Rightarrow> Inr (Some err, s')
              | Inr (None, s') \<Rightarrow> walkChunks walkFunc l (i + 1) s'))
      else Inr (None, s))"
  by pat_completeness auto
termination
  by (relation "measure (\<lambda>(walkFunc, l, i, s). nat (int (length (chunks l)) - i))") auto

definition Walk ::
  "('r, 'e, 's) ListWalkFunc \<Rightarrow> ('f, 'r) ListInMemory \<Rightarrow> 's \<Rightarrow> panic + 'e traced option \<times> 's" where
  "Walk walkFunc l s = walkChunks walkFunc l 0 s"

subsection \<open>Runs of the list\<close>

text \<open>
  The states that \<^verbatim>\<open>AppendRow\<close>, \<^verbatim>\<open>Add\<close> and \<^verbatim>\<open>Reset\<close> reach from a list that
  \<^verbatim>\<open>NewListInMemory\<close> has made.
\<close>

inductive reachable :: "('f, 'r) MemoryUsage \<Rightarrow> ('f, 'r) ListInMemory \<Rightarrow> bool"
  for mu :: "('f, 'r) MemoryUsage" where
  fresh: "reachable mu (NewListInMemory fieldTypes' initChunkSize' maxChunkSize')"
| appendRow: "reachable mu l \<Longrightarrow> AppendRow mu row l = Inr (ptr, l') \<Longrightarrow> reachable mu l'"
| add: "reachable mu l \<Longrightarrow> Add mu chk l = Inr (err, l') \<Longrightarrow> reachable mu l'"
| reset: "reachable mu l \<Longrightarrow> Reset mu l = Inr l' \<Longrightarrow> reachable mu l'"

text \<open>
  A caller that appends the rows of a list one after the other and keeps the pointers
  in the order \<^verbatim>\<open>AppendRow\<close> returned them.
\<close>

fun appendRows ::
  "('f, 'r) MemoryUsage \<Rightarrow> 'r list \<Rightarrow> ('f, 'r) ListInMemory
     \<Rightarrow> panic + RowPtr list \<times> ('f, 'r) ListInMemory" where
  "appendRows mu [] l = Inr ([], l)"
| "appendRows mu (row # rest) l =
     (case AppendRow mu row l of
        Inl p \<Rightarrow> Inl p
      | Inr (ptr, l') \<Rightarrow>
          (case appendRows mu rest l' of
             Inl p \<Rightarrow> Inl p
           | Inr (ptrs, l'') \<Rightarrow> Inr (ptr # ptrs, l'')))"

text \<open>The caller then reads every pointer back, in the same order.\<close>

fun getRows :: "('f, 'r) ListInMemory \<Rightarrow> RowPtr list \<Rightarrow> panic + 'r list" where
  "getRows l [] = Inr []"
| "getRows l (ptr # ptrs) =
     (case GetRow l ptr of
        Inl p \<Rightarrow> Inl p
      | Inr (row, err) \<Rightarrow>
          (case getRows l ptrs of Inl p \<Rightarrow> Inl p | Inr rest \<Rightarrow> Inr (row # rest)))"

definition readBack ::
  "('f, 'r) MemoryUsage \<Rightarrow> 'r list \<Rightarrow> ('f, 'r) ListInMemory \<Rightarrow> panic + 'r list" where
  "readBack mu rs l =
     (case appendRows mu rs l of Inl p \<Rightarrow> Inl p | Inr (ptrs, l') \<Rightarrow> getRows l' ptrs)"

text \<open>
  A caller that adds up \<^verbatim>\<open>NumRowsOfChunk(i)\<close> for the first \<open>n\<close> chunks.
\<close>

fun sumNumRows :: "('f, 'r) ListInMemory \<Rightarrow> nat \<Rightarrow> panic + int" where
  "sumNumRows l 0 = Inr 0"
| "sumNumRows l (Suc n) =
     (case sumNumRows l n of
        Inl p \<Rightarrow> Inl p
      | Inr acc \<Rightarrow>
          (case NumRowsOfChunk l (int n) of Inl p \<Rightarrow> Inl p | Inr k \<Rightarrow> Inr (acc + k)))"

subsection \<open>The walk as the specification words it\<close>

text \<open>
  The rows of the list in the order of the chunks and, within a chunk, of the offsets.
\<close>

definition allRows :: "('f, 'r) ListInMemory \<Rightarrow> 'r list" where
  "allRows l = concat (map rows (chunks l))"

text \<open>
  The walk of the specification over a sequence of rows: "visits every row ...; on the
  first failing visit, aborts immediately and returns that failure (wrapped with context)
  without visiting remaining rows". \<open>Walk\<close> above is compared with it.
\<close>

fun visitInOrder :: "('r, 'e, 's) ListWalkFunc \<Rightarrow> 'r list \<Rightarrow> 's \<Rightarrow> 'e traced option \<times> 's" where
  "visitInOrder walkFunc [] s = (None, s)"
| "visitInOrder walkFunc (row # rest) s =
     (case walkFunc row s of
        (Some err, s') \<Rightarrow> (Some (Trace err), s')
      | (None, s') \<Rightarrow> visitInOrder walkFunc rest s')"

text \<open>
  What a visitor answers on each row of a sequence when it is called on every row in turn.
\<close>

fun answers :: "('r, 'e, 's) ListWalkFunc \<Rightarrow> 'r list \<Rightarrow> 's \<Rightarrow> 'e option list" where
  "answers walkFunc [] s = []"
| "answers walkFunc (row # rest) s =
     (case walkFunc row s of (err, s') \<Rightarrow> err # answers walkFunc rest s')"

text \<open>
  A visitor that also keeps the rows it was called on, in the order of the calls.
\<close>

definition recording :: "('r, 'e, 's) ListWalkFunc \<Rightarrow> ('r, 'e, 's \<times> 'r list) ListWalkFunc" where
  "recording walkFunc row =
     (\<lambda>(s, seen). case walkFunc row s of (err, s') \<Rightarrow> (err, (s', seen @ [row])))"

subsection \<open>Invariants\<close>

text \<open>
  \<open>consumedIdx\<close> is the index of the last chunk, or of the chunk before the last one.
\<close>

definition sealedToLast :: "('f, 'r) ListInMemory \<Rightarrow> bool" where
  "sealedToLast l \<longleftrightarrow>
     consumedIdx l = int (length (chunks l)) - 1
       \<or> chunks l \<noteq> [] \<and> consumedIdx l = int (length (chunks l)) - 2"

text \<open>
  What the tracker holds for the list: the footprints of the chunks up to \<open>consumedIdx\<close>
  and of the chunks of the freelist.
\<close>

definition chargedTotal :: "('f, 'r) MemoryUsage \<Rightarrow> ('f, 'r) ListInMemory \<Rightarrow> int" where
  "chargedTotal mu l =
     sum_list (map mu (take (nat (consumedIdx l + 1)) (chunks l))) + sum_list (map mu (freelist l))"

definition listInv :: "('f, 'r) MemoryUsage \<Rightarrow> ('f, 'r) ListInMemory \<Rightarrow> bool" where
  "listInv mu l \<longleftrightarrow>
     sealedToLast l \<and> length' l = sum_list (map NumRows (chunks l))
       \<and> list_all (\<lambda>c. 0 < NumRows c) (chunks l)
       \<and> BytesConsumed (memTracker l) = chargedTotal mu l"

subsection \<open>Example values\<close>

text \<open>A chunk of two rows, an empty chunk, and a fresh list of the scenario of the
  specification: \<open>initChunkSize = 2\<close>, \<open>maxChunkSize = 4\<close>.\<close>

definition chunk99 :: "(nat, nat) Chunk" where
  "chunk99 = \<lparr>schema = [], rows = [9, 9], capacity = 5\<rparr>"

definition chunk0 :: "(nat, nat) Chunk" where
  "chunk0 = \<lparr>schema = [], rows = [], capacity = 5\<rparr>"

definition list24 :: "(nat, nat) ListInMemory" where
  "list24 = NewListInMemory [] 2 4"

text \<open>The fresh list after \<^verbatim>\<open>AppendRow\<close> of 1, 2, 3.\<close>

definition list123 :: "(nat, nat) ListInMemory" where
  "list123 =
     \<lparr>fieldTypes = [], initChunkSize = 2, maxChunkSize = 4, length' = 3,
      chunks = [\<lparr>schema = [], rows = [1, 2], capacity = 2\<rparr>,
                \<lparr>schema = [], rows = [3], capacity = 4\<rparr>],
      freelist = [], memTracker = [16], consumedIdx = 0\<rparr>"

text \<open>The fresh list after \<^verbatim>\<open>AppendRow\<close> of 1 to 7.\<close>

definition list12345 :: "(nat, nat) ListInMemory" where
  "list12345 =
     \<lparr>fieldTypes = [], initChunkSize = 2, maxChunkSize = 4, length' = 7,
      chunks = [\<lparr>schema = [], rows = [1, 2], capacity = 2\<rparr>,
                \<lparr>schema = [], rows = [3, 4, 5, 6], capacity = 4\<rparr>,
                \<lparr>schema = [], rows = [7], capacity = 4\<rparr>],
      freelist = [], memTracker = [16, 32], consumedIdx = 1\<rparr>"

text \<open>The fresh list after \<^verbatim>\<open>AppendRow\<close> of 1 and then \<^verbatim>\<open>Reset\<close>.\<close>

definition list1reset :: "(nat, nat) ListInMemory" where
  "list1reset =
     \<lparr>fieldTypes = [], initChunkSize = 2, maxChunkSize = 4, length' = 0, chunks = [],
      freelist = [\<lparr>schema = [], rows = [1], capacity = 2\<rparr>], memTracker = [16],
      consumedIdx = -1\<rparr>"

text \<open>The fresh list after \<^verbatim>\<open>Add\<close> of \<open>chunk99\<close>.\<close>

definition listAdded :: "(nat, nat) ListInMemory" where
  "listAdded =
     \<lparr>fieldTypes = [], initChunkSize = 2, maxChunkSize = 4, length' = 2,
      chunks = [\<lparr>schema = [], rows = [9, 9], capacity = 5\<rparr>],
      freelist = [], memTracker = [40], consumedIdx = 0\<rparr>"

text \<open>The fresh list after \<^verbatim>\<open>Add\<close> of a chunk that is full.\<close>

definition chunk99full :: "(nat, nat) Chunk" where
  "chunk99full = \<lparr>schema = [], rows = [9, 9], capacity = 2\<rparr>"

definition listAddedFull :: "(nat, nat) ListInMemory" where
  "listAddedFull =
     \<lparr>fieldTypes = [], initChunkSize = 2, maxChunkSize = 4, length' = 2,
      chunks = [\<lparr>schema = [], rows = [9, 9], capacity = 2\<rparr>],
      freelist = [], memTracker = [16], consumedIdx = 0\<rparr>"

text \<open>
  The fresh list after \<open>n\<close> calls of \<^verbatim>\<open>Add\<close> with a chunk of one row; the list after
  2^32 such calls and \<^verbatim>\<open>AppendRow\<close> of 5, which holds 2^32 + 1 chunks; and that list after
  \<^verbatim>\<open>preAlloc4Row\<close> with the placeholder 6.
\<close>

definition oneRowChunk :: "(nat, nat) Chunk" where
  "oneRowChunk = \<lparr>schema = [], rows = [0], capacity = 1\<rparr>"

definition addedList :: "nat \<Rightarrow> (nat, nat) ListInMemory" where
  "addedList n =
     \<lparr>fieldTypes = [], initChunkSize = 2, maxChunkSize = 4, length' = int n,
      chunks = replicate n oneRowChunk, freelist = [], memTracker = replicate n 8,
      consumedIdx = int n - 1\<rparr>"

definition manyChunks :: "(nat, nat) ListInMemory" where
  "manyChunks =
     \<lparr>fieldTypes = [], initChunkSize = 2, maxChunkSize = 4, length' = 4294967297,
      chunks = replicate 4294967296 oneRowChunk @ [\<lparr>schema = [], rows = [5], capacity = 2\<rparr>],
      freelist = [], memTracker = replicate 4294967296 8, consumedIdx = 4294967295\<rparr>"

definition manyChunksReserved :: "(nat, nat) ListInMemory" where
  "manyChunksReserved =
     \<lparr>fieldTypes = [], initChunkSize = 2, maxChunkSize = 4, length' = 4294967298,
      chunks = replicate 4294967296 oneRowChunk @ [\<lparr>schema = [], rows = [5, 6], capacity = 2\<rparr>],
      freelist = [], memTracker = replicate 4294967296 8, consumedIdx = 4294967295\<rparr>"

text \<open>
  A list whose rows all sit in its first chunk: the fresh list after \<^verbatim>\<open>AppendRow\<close> of
  the rows \<open>xs\<close>, when there are at most \<open>initChunkSize\<close> of them.
\<close>

definition oneChunkList :: "'f list \<Rightarrow> int \<Rightarrow> int \<Rightarrow> 'r list \<Rightarrow> ('f, 'r) ListInMemory" where
  "oneChunkList fts ics mcs xs =
     \<lparr>fieldTypes = fts, initChunkSize = ics, maxChunkSize = mcs, length' = int (length xs),
      chunks = [\<lparr>schema = fts, rows = xs, capacity = ics\<rparr>], freelist = [],
      memTracker = [], consumedIdx = -1\<rparr>"

text \<open>2^32 rows, and the list with \<open>initChunkSize = 2^33\<close> that holds them.\<close>

definition bigRows :: "nat list" where
  "bigRows = replicate 4294967296 0"

definition bigList :: "(nat, nat) ListInMemory" where
  "bigList = oneChunkList [] 8589934592 8589934592 bigRows"

definition bigList1 :: "(nat, nat) ListInMemory" where
  "bigList1 = oneChunkList [] 8589934592 8589934592 (bigRows @ [1])"

text \<open>A visitor that fails on the row 5 and counts its calls.\<close>

definition failOn5 :: "(nat, string, nat) ListWalkFunc" where
  "failOn5 row count = (if row = 5 then Some ''five'' else None, count + 1)"

section \<open>Lemmas\<close>

subsection \<open>Lists, sums and 32-bit conversions\<close>

lemma index_Inr_iff: "index xs i = Inr x \<longleftrightarrow> 0 \<le> i \<and> i < int (length xs) \<and> x = xs ! nat i"
  by (auto simp: index_def)

lemma index_in_range: "0 \<le> i \<Longrightarrow> i < int (length xs) \<Longrightarrow> index xs i = Inr (xs ! nat i)"
  by (simp add: index_def)

lemma index_last: "xs \<noteq> [] \<Longrightarrow> index xs (int (length xs) - 1) = Inr (last xs)"
  by (cases xs rule: rev_cases) (simp_all add: index_def nat_diff_distrib')

lemma index_neg: "i < 0 \<Longrightarrow> index xs i = Inl IndexOutOfRange"
  by (simp add: index_def)

lemma nth_last_int: "xs \<noteq> [] \<Longrightarrow> xs ! nat (int (length xs) - 1) = last xs"
  by (cases xs rule: rev_cases) (simp_all add: nat_diff_distrib')

lemma list_update_last_int:
  "xs \<noteq> [] \<Longrightarrow> xs[nat (int (length xs) - 1) := y] = butlast xs @ [y]"
  by (cases xs rule: rev_cases) (simp_all add: nat_diff_distrib')

lemma sum_butlast_last:
  "xs \<noteq> [] \<Longrightarrow> sum_list (map f (butlast xs)) + f (last xs) = (sum_list (map f xs) :: int)"
  by (cases xs rule: rev_cases) simp_all

lemma take_len_minus_one:
  "take (nat (int (length xs) - 2 + 1)) xs = butlast xs"
  "take (nat (int (length xs) - 1)) xs = butlast xs"
  by (cases xs rule: rev_cases; simp add: nat_diff_distrib')+

lemma upt_add_Suc: "[n..<n + Suc m] = n # [Suc n..<Suc n + m]"
proof -
  have "n < n + Suc m" by simp
  from upt_conv_Cons [OF this] show ?thesis by (simp del: upt_Suc)
qed

lemma positive_sum_bounds:
  assumes "list_all (\<lambda>c. 0 < f c) xs"
  shows "int (length xs) \<le> sum_list (map f xs) \<and> (\<forall>x\<in>set xs. f x \<le> sum_list (map f xs))"
  using assms
proof (induction xs)
  case Nil
  then show ?case by simp
next
  case (Cons a xs)
  then have ih: "int (length xs) \<le> sum_list (map f xs)"
    "\<forall>x\<in>set xs. f x \<le> sum_list (map f xs)" and a: "0 < f a"
    by simp_all
  from ih(1) have "0 \<le> sum_list (map f xs)" by linarith
  with ih a show ?case by fastforce
qed

lemma unat32_of_nat: "n < 4294967296 \<Longrightarrow> unat (word_of_nat n :: 32 word) = n"
  by (simp add: unat_of_nat)

lemma unat32_of_int: "0 \<le> k \<Longrightarrow> k < 4294967296 \<Longrightarrow> unat (word_of_int k :: 32 word) = nat k"
  by (simp add: unat_eq_nat_uint uint_word_of_int_eq take_bit_int_eq_self)

lemma uint_less_int: "uint w < int n \<longleftrightarrow> unat w < n"
  unfolding unat_eq_nat_uint by (simp add: nat_less_iff del: nat_uint_eq)

lemma index_uint:
  "index xs (uint w) = (if unat w < length xs then Inr (xs ! unat w) else Inl IndexOutOfRange)"
  by (simp add: index_def uint_less_int)

lemma uint32_wraps: "(word_of_nat 4294967296 :: 32 word) = 0" "(4294967296 :: 32 word) = 0"
proof -
  show "(word_of_nat 4294967296 :: 32 word) = 0" by (simp add: word_of_nat_eq_0_iff)
  then show "(4294967296 :: 32 word) = 0" by simp
qed

subsection \<open>The methods, case by case\<close>

lemma needsChunk_iff:
  "needsChunk l \<longleftrightarrow>
     chunks l = [] \<or> Capacity (last (chunks l)) \<le> NumRows (last (chunks l))
       \<or> int (length (chunks l)) - 1 = consumedIdx l"
  by (cases "chunks l" rule: rev_cases) (auto simp: needsChunk_def Let_def nat_diff_distrib')

lemma needsChunk4Row_iff:
  "needsChunk4Row l \<longleftrightarrow>
     chunks l = [] \<or> Capacity (last (chunks l)) \<le> NumRows (last (chunks l))"
  by (cases "chunks l" rule: rev_cases) (auto simp: needsChunk4Row_def Let_def nat_diff_distrib')

text \<open>What allocChunk leaves alone, and what it does to the pool and the tracker.\<close>

lemma allocChunk_frame:
  "allocChunk mu l = (newChk, l1) \<Longrightarrow>
     chunks l1 = chunks l \<and> consumedIdx l1 = consumedIdx l \<and> length' l1 = length' l
       \<and> fieldTypes l1 = fieldTypes l \<and> initChunkSize l1 = initChunkSize l
       \<and> maxChunkSize l1 = maxChunkSize l"
  by (auto simp: allocChunk_def Let_def split: if_splits)

lemma allocChunk_empty: "allocChunk mu l = (newChk, l1) \<Longrightarrow> rows newChk = []"
  by (auto simp: allocChunk_def Let_def Chunk_Reset_def Renew_def New_def split: if_splits)

lemma allocChunk_pool:
  "allocChunk mu l = (newChk, l1) \<Longrightarrow>
     (if freelist l = [] then freelist l1 = [] \<and> memTracker l1 = memTracker l
      else freelist l1 = butlast (freelist l)
           \<and> memTracker l1 = memTracker l @ [- mu (last (freelist l))])"
  by (cases "freelist l" rule: rev_cases)
     (auto simp: allocChunk_def Let_def Consume_def split: if_splits)

lemma allocChunk_balance:
  assumes "allocChunk mu l = (newChk, l1)"
  shows "BytesConsumed (memTracker l1) - sum_list (map mu (freelist l1))
           = BytesConsumed (memTracker l) - sum_list (map mu (freelist l))"
  using allocChunk_pool [OF assms]
  by (cases "freelist l" rule: rev_cases) (auto simp: BytesConsumed_def)

lemma pushChunk_Inr:
  assumes a: "allocChunk mu l = (newChk, l1)"
    and ne: "chunks l = [] \<longrightarrow> consumedIdx l = -1"
  shows "pushChunk mu (int (length (chunks l)) - 1) l =
           Inr (int (length (chunks l)),
                l1\<lparr>chunks := chunks l @ [newChk],
                   memTracker :=
                     (if int (length (chunks l)) - 1 \<noteq> consumedIdx l
                      then memTracker l1 @ [mu (last (chunks l))] else memTracker l1),
                   consumedIdx := int (length (chunks l)) - 1\<rparr>)"
proof (cases "int (length (chunks l)) - 1 = consumedIdx l")
  case True
  with a allocChunk_frame [OF a] show ?thesis
    by (simp add: pushChunk_def)
next
  case False
  with ne have nonempty: "chunks l \<noteq> []" by auto
  then have "index (chunks l @ [newChk]) (int (length (chunks l)) - 1) = Inr (last (chunks l))"
    by (cases "chunks l" rule: rev_cases) (simp_all add: index_def nat_diff_distrib' nth_append)
  with False a allocChunk_frame [OF a] show ?thesis
    by (simp add: pushChunk_def Consume_def)
qed

lemma pushChunk_panic:
  "chunks l = [] \<Longrightarrow> consumedIdx l \<noteq> -1 \<Longrightarrow> pushChunk mu (-1) l = Inl IndexOutOfRange"
  by (cases "allocChunk mu l") (auto simp: pushChunk_def index_def dest: allocChunk_frame)

lemma AppendRow_push:
  assumes n: "needsChunk l"
    and a: "allocChunk mu l = (newChk, l1)"
    and ne: "chunks l = [] \<longrightarrow> consumedIdx l = -1"
  shows "AppendRow mu row l =
           Inr (\<lparr>ChkIdx = word_of_int (int (length (chunks l))), RowIdx = 0\<rparr>,
                l1\<lparr>chunks := chunks l @ [Chunk_AppendRow newChk row],
                   memTracker :=
                     (if int (length (chunks l)) - 1 \<noteq> consumedIdx l
                      then memTracker l1 @ [mu (last (chunks l))] else memTracker l1),
                   consumedIdx := int (length (chunks l)) - 1,
                   length' := length' l + 1\<rparr>)"
  using n allocChunk_frame [OF a] allocChunk_empty [OF a]
  by (simp add: AppendRow_def pushChunk_Inr [OF a ne] NumRows_def)

lemma AppendRow_stay:
  assumes n: "\<not> needsChunk l"
  shows "AppendRow mu row l =
           Inr (\<lparr>ChkIdx = word_of_int (int (length (chunks l)) - 1),
                 RowIdx = word_of_int (NumRows (last (chunks l)))\<rparr>,
                l\<lparr>chunks := butlast (chunks l) @ [Chunk_AppendRow (last (chunks l)) row],
                  length' := length' l + 1\<rparr>)"
proof -
  from n have "chunks l \<noteq> []" by (simp add: needsChunk_iff)
  with n show ?thesis
    by (simp add: AppendRow_def nth_last_int list_update_last_int Let_def)
qed

lemma AppendRow_panic:
  "chunks l = [] \<Longrightarrow> consumedIdx l \<noteq> -1 \<Longrightarrow> AppendRow mu row l = Inl IndexOutOfRange"
  by (simp add: AppendRow_def needsChunk_iff pushChunk_panic)

lemma preAlloc4Row_push:
  assumes n: "needsChunk4Row l"
    and a: "allocChunk mu l = (newChk, l1)"
    and ne: "chunks l = [] \<longrightarrow> consumedIdx l = -1"
  shows "preAlloc4Row mu ph row l =
           Inr (\<lparr>ChkIdx = word_of_int (int (length (chunks l))), RowIdx = 0\<rparr>,
                l1\<lparr>chunks := chunks l @ [snd (preAlloc ph newChk row)],
                   memTracker :=
                     (if int (length (chunks l)) - 1 \<noteq> consumedIdx l
                      then memTracker l1 @ [mu (last (chunks l))] else memTracker l1),
                   consumedIdx := int (length (chunks l)) - 1,
                   length' := length' l + 1\<rparr>)"
  using n allocChunk_frame [OF a] allocChunk_empty [OF a]
  by (simp add: preAlloc4Row_def pushChunk_Inr [OF a ne] NumRows_def preAlloc_def)

lemma preAlloc4Row_stay:
  assumes n: "\<not> needsChunk4Row l"
  shows "preAlloc4Row mu ph row l =
           Inr (\<lparr>ChkIdx = word_of_int (int (length (chunks l)) - 1),
                 RowIdx = word_of_int (NumRows (last (chunks l)))\<rparr>,
                l\<lparr>chunks := butlast (chunks l) @ [snd (preAlloc ph (last (chunks l)) row)],
                  length' := length' l + 1\<rparr>)"
proof -
  from n have "chunks l \<noteq> []" by (simp add: needsChunk4Row_iff)
  with n show ?thesis
    by (simp add: preAlloc4Row_def nth_last_int list_update_last_int preAlloc_def Let_def)
qed

lemma preAlloc4Row_panic:
  "chunks l = [] \<Longrightarrow> consumedIdx l \<noteq> -1 \<Longrightarrow> preAlloc4Row mu ph row l = Inl IndexOutOfRange"
  by (simp add: preAlloc4Row_def needsChunk4Row_iff pushChunk_panic)

lemma Add_empty: "NumRows chk = 0 \<Longrightarrow> Add mu chk l = Inr (Some ErrEmptyChunk, l)"
  by (simp add: Add_def)

lemma Add_nonempty:
  assumes r: "NumRows chk \<noteq> 0"
    and ne: "chunks l = [] \<longrightarrow> consumedIdx l = -1"
  shows "Add mu chk l =
           Inr (None,
                l\<lparr>memTracker :=
                    (if consumedIdx l \<noteq> int (length (chunks l)) - 1
                     then memTracker l @ [mu (last (chunks l)), mu chk]
                     else memTracker l @ [mu chk]),
                  consumedIdx := int (length (chunks l)),
                  chunks := chunks l @ [chk],
                  length' := length' l + NumRows chk\<rparr>)"
proof (cases "consumedIdx l = int (length (chunks l)) - 1")
  case True
  with r show ?thesis by (simp add: Add_def Consume_def)
next
  case False
  with ne have "chunks l \<noteq> []" by auto
  with False r show ?thesis by (simp add: Add_def Consume_def index_last)
qed

lemma Add_panic:
  "NumRows chk \<noteq> 0 \<Longrightarrow> chunks l = [] \<Longrightarrow> consumedIdx l \<noteq> -1
     \<Longrightarrow> Add mu chk l = Inl IndexOutOfRange"
  by (simp add: Add_def index_def)

lemma Reset_ok:
  assumes ne: "chunks l = [] \<longrightarrow> consumedIdx l = -1"
  shows "Reset mu l =
           Inr (l\<lparr>memTracker :=
                    (if int (length (chunks l)) - 1 \<noteq> consumedIdx l
                     then memTracker l @ [mu (last (chunks l))] else memTracker l),
                  freelist := freelist l @ chunks l, chunks := [], length' := 0,
                  consumedIdx := -1\<rparr>)"
proof (cases "int (length (chunks l)) - 1 = consumedIdx l")
  case True
  then show ?thesis by (simp add: Reset_def)
next
  case False
  with ne have "chunks l \<noteq> []" by auto
  with False show ?thesis by (simp add: Reset_def Consume_def index_last)
qed

lemma Reset_panic:
  "chunks l = [] \<Longrightarrow> consumedIdx l \<noteq> -1 \<Longrightarrow> Reset mu l = Inl IndexOutOfRange"
  by (simp add: Reset_def index_def)

lemma NumRows_AppendRow [simp]: "NumRows (Chunk_AppendRow c row) = NumRows c + 1"
  by (simp add: NumRows_def Chunk_AppendRow_def)

lemma AppendRow_total:
  assumes ne: "chunks l = [] \<longrightarrow> consumedIdx l = -1"
  shows "\<exists>ptr l'. AppendRow mu row l = Inr (ptr, l') \<and> length' l' = length' l + 1"
proof (cases "needsChunk l")
  case True
  obtain newChk l1 where a: "allocChunk mu l = (newChk, l1)"
    by (cases "allocChunk mu l")
  show ?thesis by (simp add: AppendRow_push [OF True a ne])
next
  case False
  then show ?thesis by (simp add: AppendRow_stay)
qed

lemma GetRow_unat:
  "GetRow l ptr =
     (if unat (ChkIdx ptr) < length (chunks l)
         \<and> unat (RowIdx ptr) < length (rows (chunks l ! unat (ChkIdx ptr)))
      then Inr (rows (chunks l ! unat (ChkIdx ptr)) ! unat (RowIdx ptr), None)
      else Inl IndexOutOfRange)"
  by (simp add: GetRow_def Chunk_GetRow_def index_uint)

text \<open>Insert at a slot, then GetRow at the same slot.\<close>

lemma Insert_GetRow:
  assumes "GetRow l ptr = Inr (r, e)"
  shows "\<exists>l'. Insert ptr row l = Inr l' \<and> GetRow l' ptr = Inr (row, None)"
  using assms
  by (auto simp: GetRow_unat Insert_def index_uint insert_row_def NumRows_def uint_less_int
      split: if_splits)

subsection \<open>The invariant of the reachable lists\<close>

lemma sealedToLast_empty: "sealedToLast l \<Longrightarrow> chunks l = [] \<longrightarrow> consumedIdx l = -1"
  by (auto simp: sealedToLast_def)

lemma listInv_fresh: "listInv mu (NewListInMemory fts ics mcs)"
  by (simp add: listInv_def sealedToLast_def NewListInMemory_def chargedTotal_def
      BytesConsumed_def NewTracker_def)

lemma listInv_AppendRow:
  assumes inv: "listInv mu l" and step: "AppendRow mu row l = Inr (ptr, l')"
  shows "listInv mu l'"
proof -
  from inv have s: "sealedToLast l"
    and len: "length' l = sum_list (map NumRows (chunks l))"
    and pos: "list_all (\<lambda>c. 0 < NumRows c) (chunks l)"
    and ch: "BytesConsumed (memTracker l) = chargedTotal mu l"
    by (simp_all add: listInv_def)
  note ne = sealedToLast_empty [OF s]
  show ?thesis
  proof (cases "needsChunk l")
    case True
    obtain newChk l1 where a: "allocChunk mu l = (newChk, l1)"
      by (cases "allocChunk mu l")
    note fr = allocChunk_frame [OF a] and em = allocChunk_empty [OF a]
      and bal = allocChunk_balance [OF a]
    from step AppendRow_push [OF True a ne, of row]
    have l': "l' = l1\<lparr>chunks := chunks l @ [Chunk_AppendRow newChk row],
                   memTracker :=
                     (if int (length (chunks l)) - 1 \<noteq> consumedIdx l
                      then memTracker l1 @ [mu (last (chunks l))] else memTracker l1),
                   consumedIdx := int (length (chunks l)) - 1,
                   length' := length' l + 1\<rparr>"
      by simp
    have 1: "sealedToLast l'" by (simp add: l' sealedToLast_def)
    have 2: "length' l' = sum_list (map NumRows (chunks l'))"
      using len em by (simp add: l' NumRows_def Chunk_AppendRow_def)
    have "0 \<le> NumRows newChk" by (simp add: NumRows_def)
    with pos have 3: "list_all (\<lambda>c. 0 < NumRows c) (chunks l')"
      by (simp add: l')
    have 4: "BytesConsumed (memTracker l') = chargedTotal mu l'"
    proof (cases "int (length (chunks l)) - 1 = consumedIdx l")
      case True
      then have "chargedTotal mu l = sum_list (map mu (chunks l)) + sum_list (map mu (freelist l))"
        by (simp add: chargedTotal_def)
      with True ch bal show ?thesis
        by (simp add: l' chargedTotal_def)
    next
      case False
      with s have c: "chunks l \<noteq> []" "consumedIdx l = int (length (chunks l)) - 2"
        by (auto simp: sealedToLast_def)
      then have "chargedTotal mu l =
          sum_list (map mu (butlast (chunks l))) + sum_list (map mu (freelist l))"
        by (simp add: chargedTotal_def take_len_minus_one)
      with False ch bal sum_butlast_last [OF c(1), of mu] show ?thesis
        by (simp add: l' chargedTotal_def BytesConsumed_def)
    qed
    from 1 2 3 4 show ?thesis by (simp add: listInv_def)
  next
    case False
    then have c: "chunks l \<noteq> []" "consumedIdx l \<noteq> int (length (chunks l)) - 1"
      by (auto simp: needsChunk_iff)
    with s have ci: "consumedIdx l = int (length (chunks l)) - 2"
      by (auto simp: sealedToLast_def)
    from step AppendRow_stay [OF False, of mu row]
    have l': "l' = l\<lparr>chunks := butlast (chunks l) @ [Chunk_AppendRow (last (chunks l)) row],
                  length' := length' l + 1\<rparr>"
      by simp
    have 1: "sealedToLast l'" using c ci by (simp add: l' sealedToLast_def)
    have 2: "length' l' = sum_list (map NumRows (chunks l'))"
      using len sum_butlast_last [OF c(1), of NumRows] by (simp add: l')
    have "list_all (\<lambda>c. 0 < NumRows c) (butlast (chunks l))"
      using pos by (auto simp: list_all_iff dest: in_set_butlastD)
    moreover have "0 \<le> NumRows (last (chunks l))" by (simp add: NumRows_def)
    ultimately have 3: "list_all (\<lambda>c. 0 < NumRows c) (chunks l')"
      by (simp add: l')
    have 4: "BytesConsumed (memTracker l') = chargedTotal mu l'"
      using ch c ci by (simp add: l' chargedTotal_def take_len_minus_one)
    from 1 2 3 4 show ?thesis by (simp add: listInv_def)
  qed
qed

lemma listInv_Add:
  assumes inv: "listInv mu l" and step: "Add mu chk l = Inr (err, l')"
  shows "listInv mu l'"
proof (cases "NumRows chk = 0")
  case True
  with step inv show ?thesis by (simp add: Add_empty)
next
  case False
  from inv have s: "sealedToLast l"
    and len: "length' l = sum_list (map NumRows (chunks l))"
    and pos: "list_all (\<lambda>c. 0 < NumRows c) (chunks l)"
    and ch: "BytesConsumed (memTracker l) = chargedTotal mu l"
    by (simp_all add: listInv_def)
  note ne = sealedToLast_empty [OF s]
  from step Add_nonempty [OF False ne, of mu]
  have l': "l' = l\<lparr>memTracker :=
                    (if consumedIdx l \<noteq> int (length (chunks l)) - 1
                     then memTracker l @ [mu (last (chunks l)), mu chk]
                     else memTracker l @ [mu chk]),
                  consumedIdx := int (length (chunks l)),
                  chunks := chunks l @ [chk],
                  length' := length' l + NumRows chk\<rparr>"
    by simp
  have 1: "sealedToLast l'" by (simp add: l' sealedToLast_def)
  have 2: "length' l' = sum_list (map NumRows (chunks l'))"
    using len by (simp add: l')
  have "0 \<le> NumRows chk" by (simp add: NumRows_def)
  with False pos have 3: "list_all (\<lambda>c. 0 < NumRows c) (chunks l')"
    by (simp add: l')
  have 4: "BytesConsumed (memTracker l') = chargedTotal mu l'"
  proof (cases "int (length (chunks l)) - 1 = consumedIdx l")
    case True
    then have "chargedTotal mu l = sum_list (map mu (chunks l)) + sum_list (map mu (freelist l))"
      by (simp add: chargedTotal_def)
    with True ch show ?thesis
      by (simp add: l' chargedTotal_def BytesConsumed_def nat_add_distrib)
  next
    case False
    with s have c: "chunks l \<noteq> []" "consumedIdx l = int (length (chunks l)) - 2"
      by (auto simp: sealedToLast_def)
    then have "chargedTotal mu l =
        sum_list (map mu (butlast (chunks l))) + sum_list (map mu (freelist l))"
      by (simp add: chargedTotal_def take_len_minus_one)
    with False ch sum_butlast_last [OF c(1), of mu] show ?thesis
      by (simp add: l' chargedTotal_def BytesConsumed_def nat_add_distrib)
  qed
  from 1 2 3 4 show ?thesis by (simp add: listInv_def)
qed

lemma listInv_Reset:
  assumes inv: "listInv mu l" and step: "Reset mu l = Inr l'"
  shows "listInv mu l'"
proof -
  from inv have s: "sealedToLast l"
    and ch: "BytesConsumed (memTracker l) = chargedTotal mu l"
    by (simp_all add: listInv_def)
  note ne = sealedToLast_empty [OF s]
  from step Reset_ok [OF ne, of mu]
  have l': "l' = l\<lparr>memTracker :=
                    (if int (length (chunks l)) - 1 \<noteq> consumedIdx l
                     then memTracker l @ [mu (last (chunks l))] else memTracker l),
                  freelist := freelist l @ chunks l, chunks := [], length' := 0,
                  consumedIdx := -1\<rparr>"
    by simp
  have 4: "BytesConsumed (memTracker l') = chargedTotal mu l'"
  proof (cases "int (length (chunks l)) - 1 = consumedIdx l")
    case True
    then have "chargedTotal mu l = sum_list (map mu (chunks l)) + sum_list (map mu (freelist l))"
      by (simp add: chargedTotal_def)
    with True ch show ?thesis
      by (simp add: l' chargedTotal_def)
  next
    case False
    with s have c: "chunks l \<noteq> []" "consumedIdx l = int (length (chunks l)) - 2"
      by (auto simp: sealedToLast_def)
    then have "chargedTotal mu l =
        sum_list (map mu (butlast (chunks l))) + sum_list (map mu (freelist l))"
      by (simp add: chargedTotal_def take_len_minus_one)
    with False ch sum_butlast_last [OF c(1), of mu] show ?thesis
      by (simp add: l' chargedTotal_def BytesConsumed_def)
  qed
  then show ?thesis by (simp add: listInv_def l' sealedToLast_def)
qed

lemma reachable_listInv: "reachable mu l \<Longrightarrow> listInv mu l"
  by (induction rule: reachable.induct)
     (auto intro: listInv_fresh listInv_AppendRow listInv_Add listInv_Reset)

lemma listInv_ne: "listInv mu l \<Longrightarrow> chunks l = [] \<longrightarrow> consumedIdx l = -1"
  by (simp add: listInv_def sealedToLast_empty)

lemma reachable_ne: "reachable mu l \<Longrightarrow> chunks l = [] \<longrightarrow> consumedIdx l = -1"
  using reachable_listInv [of mu l] by (simp add: listInv_def sealedToLast_empty)

lemma listInv_bounds:
  assumes "listInv mu l"
  shows "int (length (chunks l)) \<le> length' l"
    and "chunks l \<noteq> [] \<longrightarrow> NumRows (last (chunks l)) \<le> length' l"
  using positive_sum_bounds [of NumRows "chunks l"] assms
  by (auto simp: listInv_def)

lemma listInv_allRows: "listInv mu l \<Longrightarrow> int (length (allRows l)) = length' l"
proof -
  have "int (length (concat (map rows cs))) = sum_list (map NumRows cs)"
    for cs :: "('a, 'b) Chunk list"
    by (induction cs) (simp_all add: NumRows_def)
  then show "listInv mu l \<Longrightarrow> int (length (allRows l)) = length' l"
    by (simp add: listInv_def allRows_def)
qed

lemma sumNumRows_take:
  "n \<le> length (chunks l) \<Longrightarrow> sumNumRows l n = Inr (sum_list (map NumRows (take n (chunks l))))"
proof (induction n)
  case 0
  show ?case by simp
next
  case (Suc n)
  then have "n < length (chunks l)" by simp
  with Suc show ?case
    by (simp add: NumRowsOfChunk_def GetChunk_def index_def take_Suc_conv_app_nth)
qed

lemma sumNumRows_all:
  "sumNumRows l (nat (NumChunks l)) = Inr (sum_list (map NumRows (chunks l)))"
  by (simp add: NumChunks_def sumNumRows_take)

lemma appendRows_total:
  assumes "listInv mu l"
  shows "\<exists>ptrs l'. appendRows mu rs l = Inr (ptrs, l') \<and> listInv mu l'
           \<and> length' l' = length' l + int (length rs) \<and> length ptrs = length rs
           \<and> (reachable mu l \<longrightarrow> reachable mu l')"
  using assms
proof (induction rs arbitrary: l)
  case Nil
  then show ?case by simp
next
  case (Cons row rest)
  from Cons.prems have "chunks l = [] \<longrightarrow> consumedIdx l = -1"
    by (simp add: listInv_def sealedToLast_empty)
  from AppendRow_total [OF this, of mu row]
  obtain ptr l1 where st: "AppendRow mu row l = Inr (ptr, l1)" "length' l1 = length' l + 1"
    by blast
  have inv1: "listInv mu l1" by (rule listInv_AppendRow [OF Cons.prems st(1)])
  from Cons.IH [OF inv1]
  obtain ptrs l2 where rest: "appendRows mu rest l1 = Inr (ptrs, l2)" "listInv mu l2"
    "length' l2 = length' l1 + int (length rest)" "length ptrs = length rest"
    "reachable mu l1 \<longrightarrow> reachable mu l2"
    by blast
  have "reachable mu l \<longrightarrow> reachable mu l1"
    using st(1) by (auto intro: reachable.appendRow)
  with st rest show ?case by simp
qed

lemma appendRows_reachable:
  assumes "reachable mu l" and "appendRows mu rs l = Inr (ptrs, l')"
  shows "reachable mu l'"
  using appendRows_total [OF reachable_listInv [OF assms(1)], of rs] assms by auto

subsection \<open>Pointers\<close>

text \<open>A pointer that reads a row keeps reading it after AppendRow.\<close>

lemma AppendRow_keeps_rows:
  assumes step: "AppendRow mu row l = Inr (ptr, l')"
    and ne: "chunks l = [] \<longrightarrow> consumedIdx l = -1"
    and old: "GetRow l p = Inr (r, e)"
  shows "GetRow l' p = Inr (r, e)"
proof -
  let ?i = "unat (ChkIdx p)" and ?j = "unat (RowIdx p)"
  from old have i: "?i < length (chunks l)" and j: "?j < length (rows (chunks l ! ?i))"
    and r: "r = rows (chunks l ! ?i) ! ?j" and e: "e = None"
    by (auto simp: GetRow_unat split: if_splits)
  show ?thesis
  proof (cases "needsChunk l")
    case True
    obtain newChk l1 where a: "allocChunk mu l = (newChk, l1)"
      by (cases "allocChunk mu l")
    from step AppendRow_push [OF True a ne, of row]
    have "chunks l' = chunks l @ [Chunk_AppendRow newChk row]" by auto
    with i j r e show ?thesis by (simp add: GetRow_unat nth_append)
  next
    case False
    then have c: "chunks l \<noteq> []" by (simp add: needsChunk_iff)
    from step AppendRow_stay [OF False, of mu row]
    have l': "chunks l' = butlast (chunks l) @ [Chunk_AppendRow (last (chunks l)) row]" by auto
    show ?thesis
    proof (cases "?i = length (chunks l) - 1")
      case True
      with c have "chunks l ! ?i = last (chunks l)" by (simp add: last_conv_nth)
      with True i j r e c show ?thesis
        by (simp add: GetRow_unat l' nth_append Chunk_AppendRow_def)
    next
      case False
      with i have "?i < length (chunks l) - 1" by simp
      with i j r e c show ?thesis
        by (simp add: GetRow_unat l' nth_append nth_butlast)
    qed
  qed
qed

text \<open>Where AppendRow writes, and the pointer it returns.\<close>

lemma AppendRow_slot:
  assumes step: "AppendRow mu row l = Inr (ptr, l')"
    and ne: "chunks l = [] \<longrightarrow> consumedIdx l = -1"
    and nc: "int (length (chunks l)) < 4294967296"
    and nr: "chunks l \<noteq> [] \<longrightarrow> NumRows (last (chunks l)) < 4294967296"
  shows "chunks l' \<noteq> [] \<and> uint (ChkIdx ptr) = NumChunks l' - 1
    \<and> uint (RowIdx ptr) = NumRows (last (chunks l')) - 1
    \<and> GetRow l' ptr = Inr (row, None)"
proof (cases "needsChunk l")
  case True
  obtain newChk l1 where a: "allocChunk mu l = (newChk, l1)"
    by (cases "allocChunk mu l")
  from step AppendRow_push [OF True a ne, of row]
  have p: "ptr = \<lparr>ChkIdx = word_of_int (int (length (chunks l))), RowIdx = 0\<rparr>"
    and l': "chunks l' = chunks l @ [Chunk_AppendRow newChk row]" by auto
  from nc have u: "unat (word_of_nat (length (chunks l)) :: 32 word) = length (chunks l)"
    by (simp add: unat32_of_nat)
  have z: "uint w = int (unat w)" for w :: "32 word" by (rule uint_nat)
  from allocChunk_empty [OF a] u show ?thesis
    by (simp add: GetRow_unat p l' NumChunks_def z Chunk_AppendRow_def NumRows_def
        del: of_nat_unat)
next
  case False
  then have c: "chunks l \<noteq> []" by (simp add: needsChunk_iff)
  from step AppendRow_stay [OF False, of mu row]
  have p: "ptr = \<lparr>ChkIdx = word_of_int (int (length (chunks l)) - 1),
                  RowIdx = word_of_int (NumRows (last (chunks l)))\<rparr>"
    and l': "chunks l' = butlast (chunks l) @ [Chunk_AppendRow (last (chunks l)) row]" by auto
  from c have "0 \<le> int (length (chunks l)) - 1" by (cases "chunks l") simp_all
  moreover from nc have "int (length (chunks l)) - 1 < 4294967296" by simp
  ultimately have "unat (word_of_int (int (length (chunks l)) - 1) :: 32 word)
      = nat (int (length (chunks l)) - 1)"
    by (rule unat32_of_int)
  then have u: "unat (word_of_int (int (length (chunks l)) - 1) :: 32 word) = length (chunks l) - 1"
    by (simp add: nat_diff_distrib')
  from nr c have v: "unat (word_of_int (NumRows (last (chunks l))) :: 32 word)
      = length (rows (last (chunks l)))"
    by (simp add: unat32_of_nat NumRows_def)
  have z: "uint w = int (unat w)" for w :: "32 word" by (rule uint_nat)
  from c have w: "int (length (chunks l) - Suc 0) = int (length (chunks l)) - 1"
    by (cases "chunks l") simp_all
  from c u v w show ?thesis
    by (simp add: GetRow_unat p l' NumChunks_def z Chunk_AppendRow_def NumRows_def
        nth_append del: of_nat_unat)
qed

lemma unat32_of_nat_le: "unat (word_of_nat n :: 32 word) \<le> n"
  by (simp add: unat_of_nat)

text \<open>
  The pointer of preAlloc4Row addresses a slot of the list when the index of the chunk
  written fits its 32 bits: a truncated row offset lies before the reserved slot.
\<close>

lemma preAlloc4Row_addresses_slot:
  assumes step: "preAlloc4Row mu ph row l = Inr (ptr, l')"
    and ne: "chunks l = [] \<longrightarrow> consumedIdx l = -1"
    and nc: "int (length (chunks l')) \<le> 4294967296"
  shows "\<exists>r. GetRow l' ptr = Inr (r, None)"
proof (cases "needsChunk4Row l")
  case True
  obtain newChk l1 where a: "allocChunk mu l = (newChk, l1)"
    by (cases "allocChunk mu l")
  from step preAlloc4Row_push [OF True a ne, of ph row]
  have p: "ptr = \<lparr>ChkIdx = word_of_int (int (length (chunks l))), RowIdx = 0\<rparr>"
    and l': "chunks l' = chunks l @ [snd (preAlloc ph newChk row)]" by auto
  from nc l' have "length (chunks l) < 4294967296" by simp
  then have u: "unat (word_of_nat (length (chunks l)) :: 32 word) = length (chunks l)"
    by (simp add: unat32_of_nat)
  from allocChunk_empty [OF a] u show ?thesis
    by (simp add: GetRow_unat p l' preAlloc_def)
next
  case False
  then have c: "chunks l \<noteq> []" by (simp add: needsChunk4Row_iff)
  from step preAlloc4Row_stay [OF False, of mu ph row]
  have p: "ptr = \<lparr>ChkIdx = word_of_int (int (length (chunks l)) - 1),
                  RowIdx = word_of_int (NumRows (last (chunks l)))\<rparr>"
    and l': "chunks l' = butlast (chunks l) @ [snd (preAlloc ph (last (chunks l)) row)]" by auto
  from c have "0 \<le> int (length (chunks l)) - 1" by (cases "chunks l") simp_all
  moreover from nc l' c have "int (length (chunks l)) - 1 < 4294967296" by simp
  ultimately have "unat (word_of_int (int (length (chunks l)) - 1) :: 32 word)
      = nat (int (length (chunks l)) - 1)"
    by (rule unat32_of_int)
  then have u: "unat (word_of_int (int (length (chunks l)) - 1) :: 32 word) = length (chunks l) - 1"
    by (simp add: nat_diff_distrib')
  have v: "unat (word_of_nat (length (rows (last (chunks l)))) :: 32 word)
      < Suc (length (rows (last (chunks l))))"
    using unat32_of_nat_le [of "length (rows (last (chunks l)))"] by simp
  from c u v show ?thesis
    by (simp add: GetRow_unat p l' preAlloc_def nth_append NumRows_def)
qed

lemma appendRows_keeps_rows:
  assumes "appendRows mu rs l = Inr (ptrs, l')" and "listInv mu l"
    and "GetRow l p = Inr (r, e)"
  shows "GetRow l' p = Inr (r, e)"
  using assms
proof (induction rs arbitrary: l ptrs)
  case Nil
  then show ?case by simp
next
  case (Cons row rest)
  from Cons.prems(1) obtain ptr l1 ptrs' where
    st: "AppendRow mu row l = Inr (ptr, l1)" and rest: "appendRows mu rest l1 = Inr (ptrs', l')"
    by (auto split: sum.splits prod.splits)
  have "GetRow l1 p = Inr (r, e)"
    by (rule AppendRow_keeps_rows [OF st listInv_ne [OF Cons.prems(2)] Cons.prems(3)])
  from Cons.IH [OF rest listInv_AppendRow [OF Cons.prems(2) st] this] show ?case .
qed

lemma appendRows_getRows:
  assumes "appendRows mu rs l = Inr (ptrs, l')" and "listInv mu l"
    and "length' l + int (length rs) \<le> 4294967296"
  shows "getRows l' ptrs = Inr rs"
  using assms
proof (induction rs arbitrary: l ptrs)
  case Nil
  then show ?case by auto
next
  case (Cons row rest)
  from Cons.prems(1) obtain ptr l1 ptrs' where
    st: "AppendRow mu row l = Inr (ptr, l1)" and rest: "appendRows mu rest l1 = Inr (ptrs', l')"
    and ptrs: "ptrs = ptr # ptrs'"
    by (auto split: sum.splits prod.splits)
  note inv1 = listInv_AppendRow [OF Cons.prems(2) st]
  from Cons.prems(3) have lt: "length' l < 4294967296" by simp
  with listInv_bounds [OF Cons.prems(2)]
  have nc: "int (length (chunks l)) < 4294967296"
    and nr: "chunks l \<noteq> [] \<longrightarrow> NumRows (last (chunks l)) < 4294967296"
    by auto
  from AppendRow_slot [OF st listInv_ne [OF Cons.prems(2)] nc nr]
  have "GetRow l1 ptr = Inr (row, None)" by simp
  from appendRows_keeps_rows [OF rest inv1 this]
  have g: "GetRow l' ptr = Inr (row, None)" .
  from AppendRow_total [OF listInv_ne [OF Cons.prems(2)], of mu row] st
  have "length' l1 = length' l + 1" by auto
  with Cons.prems(3) have "length' l1 + int (length rest) \<le> 4294967296" by simp
  from Cons.IH [OF rest inv1 this] g ptrs show ?case by simp
qed

lemma getRows_nth:
  assumes "getRows l ptrs = Inr xs" and "i < length ptrs"
  shows "GetRow l (ptrs ! i) = Inr (xs ! i, None)"
  using assms
proof (induction ptrs arbitrary: xs i)
  case Nil
  then show ?case by simp
next
  case (Cons p ps)
  from Cons.prems(1) obtain row err rest where
    g: "GetRow l p = Inr (row, err)" and r: "getRows l ps = Inr rest" and xs: "xs = row # rest"
    by (auto split: sum.splits prod.splits)
  from g have "err = None" by (auto simp: GetRow_unat split: if_splits)
  with g r xs Cons.IH [OF r] Cons.prems(2) show ?case
    by (cases i) simp_all
qed

subsection \<open>Runs that fill one chunk\<close>

lemma AppendRow_fresh:
  "AppendRow mu row (NewListInMemory fts ics mcs) =
     Inr (\<lparr>ChkIdx = 0, RowIdx = 0\<rparr>, oneChunkList fts ics mcs [row])"
  by (simp add: NewListInMemory_def oneChunkList_def AppendRow_def needsChunk_def pushChunk_def
      allocChunk_def New_def Chunk_AppendRow_def NumRows_def NewTracker_def)

lemma AppendRow_oneChunk:
  assumes "xs \<noteq> []" and "int (length xs) < ics"
  shows "AppendRow mu row (oneChunkList fts ics mcs xs) =
           Inr (\<lparr>ChkIdx = 0, RowIdx = word_of_nat (length xs)\<rparr>,
                oneChunkList fts ics mcs (xs @ [row]))"
proof -
  from assms have "\<not> needsChunk (oneChunkList fts ics mcs xs)"
    by (simp add: needsChunk_iff oneChunkList_def NumRows_def Capacity_def)
  from AppendRow_stay [OF this, of mu row] show ?thesis
    by (simp add: oneChunkList_def NumRows_def Chunk_AppendRow_def)
qed

lemma appendRows_oneChunk:
  assumes "xs \<noteq> []" and "int (length xs + length ys) \<le> ics"
  shows "appendRows mu ys (oneChunkList fts ics mcs xs) =
           Inr (map (\<lambda>i. \<lparr>ChkIdx = 0, RowIdx = word_of_nat i\<rparr>)
                  [length xs..<length xs + length ys],
                oneChunkList fts ics mcs (xs @ ys))"
  using assms
proof (induction ys arbitrary: xs)
  case Nil
  then show ?case by simp
next
  case (Cons y ys)
  from Cons.prems have a: "int (length xs) < ics" by simp
  from Cons.prems have b: "xs @ [y] \<noteq> []" "int (length (xs @ [y]) + length ys) \<le> ics"
    by simp_all
  have u: "[length xs..<length xs + length (y # ys)]
      = length xs # [length (xs @ [y])..<length (xs @ [y]) + length ys]"
    using upt_add_Suc [of "length xs" "length ys"] by (simp del: upt_Suc)
  show ?case
    unfolding u
    by (simp add: AppendRow_oneChunk [OF Cons.prems(1) a] Cons.IH [OF b])
qed

lemma appendRows_fresh_oneChunk:
  assumes "rs \<noteq> []" and "int (length rs) \<le> ics"
  shows "appendRows mu rs (NewListInMemory fts ics mcs) =
           Inr (map (\<lambda>i. \<lparr>ChkIdx = 0, RowIdx = word_of_nat i\<rparr>) [0..<length rs],
                oneChunkList fts ics mcs rs)"
proof (cases rs)
  case Nil
  with assms show ?thesis by simp
next
  case (Cons r rest)
  with assms have "int (length [r] + length rest) \<le> ics" by simp
  from appendRows_oneChunk [OF _ this, of mu fts mcs]
  have "appendRows mu rest (oneChunkList fts ics mcs [r]) =
      Inr (map (\<lambda>i. \<lparr>ChkIdx = 0, RowIdx = word_of_nat i\<rparr>) [Suc 0..<Suc 0 + length rest],
           oneChunkList fts ics mcs (r # rest))"
    by (simp del: upt_Suc)
  moreover have "[0..<length rs] = 0 # [Suc 0..<Suc 0 + length rest]"
    using upt_add_Suc [of 0 "length rest"] Cons by (simp del: upt_Suc)
  ultimately show ?thesis
    using Cons by (simp add: AppendRow_fresh del: upt_Suc)
qed

subsection \<open>Walk and the walk of the specification\<close>

lemma visitInOrder_append:
  "visitInOrder f (xs @ ys) s =
     (case visitInOrder f xs s of
        (Some err, s') \<Rightarrow> (Some err, s')
      | (None, s') \<Rightarrow> visitInOrder f ys s')"
  by (induction xs arbitrary: s) (auto split: prod.splits option.splits)

lemma walkRows_visitInOrder:
  "0 \<le> j \<Longrightarrow> walkRows f chk j s = Inr (visitInOrder f (drop (nat j) (rows chk)) s)"
proof (induction f chk j s rule: walkRows.induct)
  case (1 walkFunc chk j s)
  show ?case
  proof (cases "j < NumRows chk")
    case True
    with "1.prems" have lt: "nat j < length (rows chk)" by (simp add: NumRows_def)
    then have d: "drop (nat j) (rows chk) = rows chk ! nat j # drop (nat (j + 1)) (rows chk)"
      using "1.prems" by (simp add: Cons_nth_drop_Suc nat_add_distrib)
    from True "1.prems" have g: "Chunk_GetRow chk j = Inr (rows chk ! nat j)"
      by (simp add: Chunk_GetRow_def index_def NumRows_def)
    show ?thesis
    proof (cases "walkFunc (rows chk ! nat j) s")
      case (Pair err s')
      show ?thesis
      proof (cases err)
        case None
        from "1.IH" [OF True g Pair [symmetric, unfolded None] refl] "1.prems"
        have "walkRows walkFunc chk (j + 1) s'
            = Inr (visitInOrder walkFunc (drop (nat (j + 1)) (rows chk)) s')"
          by simp
        with True g Pair None d show ?thesis
          by (subst walkRows.simps) simp
      next
        case (Some e)
        with True g Pair d show ?thesis
          by (subst walkRows.simps) simp
      qed
    qed
  next
    case False
    with "1.prems" have "drop (nat j) (rows chk) = []" by (simp add: NumRows_def)
    with False show ?thesis by (subst walkRows.simps) simp
  qed
qed

lemma walkChunks_visitInOrder:
  "0 \<le> i \<Longrightarrow>
     walkChunks f l i s = Inr (visitInOrder f (concat (map rows (drop (nat i) (chunks l)))) s)"
proof (induction f l i s rule: walkChunks.induct)
  case (1 walkFunc l i s)
  show ?case
  proof (cases "i < int (length (chunks l))")
    case True
    let ?chk = "chunks l ! nat i"
    from True "1.prems" have idx: "index (chunks l) i = Inr ?chk"
      by (simp add: index_def)
    have wr: "walkRows walkFunc ?chk 0 s = Inr (visitInOrder walkFunc (rows ?chk) s)"
      using walkRows_visitInOrder [of 0 walkFunc ?chk s] by simp
    from True "1.prems" have "nat i < length (chunks l)" by simp
    then have d: "drop (nat i) (chunks l) = ?chk # drop (nat (i + 1)) (chunks l)"
      using "1.prems" by (simp add: Cons_nth_drop_Suc nat_add_distrib)
    show ?thesis
    proof (cases "visitInOrder walkFunc (rows ?chk) s")
      case (Pair res s')
      show ?thesis
      proof (cases res)
        case None
        from "1.IH" [OF True idx wr [unfolded Pair None] refl refl] "1.prems"
        have "walkChunks walkFunc l (i + 1) s'
            = Inr (visitInOrder walkFunc (concat (map rows (drop (nat (i + 1)) (chunks l)))) s')"
          by simp
        with True idx wr Pair None d show ?thesis
          by (subst walkChunks.simps) (simp add: visitInOrder_append)
      next
        case (Some e)
        with True idx wr Pair d show ?thesis
          by (subst walkChunks.simps) (simp add: visitInOrder_append)
      qed
    qed
  next
    case False
    with "1.prems" have "drop (nat i) (chunks l) = []" by simp
    with False show ?thesis by (subst walkChunks.simps) simp
  qed
qed

lemma Walk_visitInOrder: "Walk f l s = Inr (visitInOrder f (allRows l) s)"
  using walkChunks_visitInOrder [of 0 f l s] by (simp add: Walk_def allRows_def)

lemma visitInOrder_all_succeed:
  assumes "list_all (\<lambda>a. a = None) (answers f rs s)"
  shows "\<exists>s'. visitInOrder (recording f) rs (s, seen) = (None, (s', seen @ rs))"
  using assms
proof (induction rs arbitrary: s seen)
  case Nil
  then show ?case by simp
next
  case (Cons r rs)
  obtain a s1 where f: "f r s = (a, s1)" by (cases "f r s")
  with Cons.prems have a: "a = None" and rest: "list_all (\<lambda>a. a = None) (answers f rs s1)"
    by simp_all
  from Cons.IH [OF rest, of "seen @ [r]"] f a show ?case
    by (simp add: recording_def)
qed

lemma visitInOrder_first_failure:
  assumes "k < length rs" and "answers f rs s ! k = Some e"
    and "\<forall>i<k. answers f rs s ! i = None"
  shows "\<exists>s'. visitInOrder (recording f) rs (s, seen)
           = (Some (Trace e), (s', seen @ take (Suc k) rs))"
  using assms
proof (induction rs arbitrary: s seen k)
  case Nil
  then show ?case by simp
next
  case (Cons r rs)
  obtain a s1 where f: "f r s = (a, s1)" by (cases "f r s")
  show ?case
  proof (cases k)
    case 0
    with Cons.prems(2) f have "a = Some e" by simp
    with f 0 show ?thesis by (simp add: recording_def)
  next
    case (Suc k')
    from Cons.prems(3) [rule_format, of 0] Suc f have a: "a = None" by simp
    from Cons.prems(1) Suc have 1: "k' < length rs" by simp
    from Cons.prems(2) Suc f have 2: "answers f rs s1 ! k' = Some e" by simp
    have 3: "\<forall>i<k'. answers f rs s1 ! i = None"
    proof (intro allI impI)
      fix i assume "i < k'"
      with Cons.prems(3) [rule_format, of "Suc i"] Suc f show "answers f rs s1 ! i = None"
        by simp
    qed
    from Cons.IH [OF 1 2 3, of "seen @ [r]"] f a Suc show ?thesis
      by (simp add: recording_def)
  qed
qed

subsection \<open>The example lists\<close>

lemmas listEval =
  AppendRow_def needsChunk_def pushChunk_def allocChunk_def Add_def Reset_def New_def Renew_def
  Chunk_AppendRow_def Chunk_Reset_def NumRows_def Capacity_def index_def Consume_def
  NewTracker_def slotUsage_def Let_def

lemma appendRows_list24:
  "appendRows slotUsage [1, 2, 3] list24 =
     Inr ([\<lparr>ChkIdx = 0, RowIdx = 0\<rparr>, \<lparr>ChkIdx = 0, RowIdx = 1\<rparr>, \<lparr>ChkIdx = 1, RowIdx = 0\<rparr>],
          \<lparr>fieldTypes = [], initChunkSize = 2, maxChunkSize = 4, length' = 3,
           chunks = [\<lparr>schema = [], rows = [1, 2], capacity = 2\<rparr>,
                     \<lparr>schema = [], rows = [3], capacity = 4\<rparr>],
           freelist = [], memTracker = [16], consumedIdx = 0\<rparr>)"
  by (simp add: list24_def NewListInMemory_def AppendRow_def needsChunk_def pushChunk_def
      allocChunk_def New_def Renew_def Chunk_AppendRow_def NumRows_def Capacity_def
      index_def Consume_def NewTracker_def slotUsage_def Let_def)

lemma reachable_list24: "reachable slotUsage list24"
  unfolding list24_def by (rule reachable.fresh)

lemma reachable_list123: "reachable slotUsage list123"
  using appendRows_reachable [OF reachable_list24 appendRows_list24]
  by (simp add: list123_def)

lemma AppendRow_list24:
  "AppendRow slotUsage 1 list24 =
     Inr (\<lparr>ChkIdx = 0, RowIdx = 0\<rparr>,
          \<lparr>fieldTypes = [], initChunkSize = 2, maxChunkSize = 4, length' = 1,
           chunks = [\<lparr>schema = [], rows = [1], capacity = 2\<rparr>],
           freelist = [], memTracker = [], consumedIdx = -1\<rparr>)"
  by (simp add: list24_def NewListInMemory_def listEval)

lemma Reset_list1:
  "Reset slotUsage
     \<lparr>fieldTypes = [], initChunkSize = 2, maxChunkSize = 4, length' = 1,
      chunks = [\<lparr>schema = [], rows = [1::nat], capacity = 2\<rparr>],
      freelist = [], memTracker = [], consumedIdx = -1\<rparr> = Inr list1reset"
  by (simp add: list1reset_def listEval)

lemma reachable_list1reset: "reachable slotUsage list1reset"
  by (rule reachable.reset [OF reachable.appendRow [OF reachable_list24 AppendRow_list24] Reset_list1])

lemma Add_list24: "Add slotUsage chunk99 list24 = Inr (None, listAdded)"
  by (simp add: list24_def chunk99_def listAdded_def NewListInMemory_def listEval)

lemma reachable_listAdded: "reachable slotUsage listAdded"
  by (rule reachable.add [OF reachable_list24 Add_list24])

lemma appendRows_list12345:
  "appendRows slotUsage [1, 2, 3, 4, 5, 6, 7] list24 =
     Inr ([\<lparr>ChkIdx = 0, RowIdx = 0\<rparr>, \<lparr>ChkIdx = 0, RowIdx = 1\<rparr>, \<lparr>ChkIdx = 1, RowIdx = 0\<rparr>,
           \<lparr>ChkIdx = 1, RowIdx = 1\<rparr>, \<lparr>ChkIdx = 1, RowIdx = 2\<rparr>, \<lparr>ChkIdx = 1, RowIdx = 3\<rparr>,
           \<lparr>ChkIdx = 2, RowIdx = 0\<rparr>], list12345)"
  by (simp add: list24_def list12345_def NewListInMemory_def listEval)

lemma reachable_list12345: "reachable slotUsage list12345"
  by (rule appendRows_reachable [OF reachable_list24 appendRows_list12345])

lemma allRows_examples:
  "allRows list12345 = [1, 2, 3, 4, 5, 6, 7]" "allRows list123 = [1, 2, 3]"
  by (simp_all add: allRows_def list12345_def list123_def)

lemma answers_examples:
  "answers failOn5 (allRows list12345) 0 = [None, None, None, None, Some ''five'', None, None]"
  "answers failOn5 (allRows list123) 0 = [None, None, None]"
  by (simp_all add: allRows_def list12345_def list123_def failOn5_def)

lemma bigRows_facts: "length bigRows = 4294967296" "bigRows \<noteq> []" "bigRows ! 0 = 0"
  by (simp_all add: bigRows_def)

lemma reachable_bigList: "reachable slotUsage bigList"
proof -
  have "appendRows slotUsage bigRows
        (NewListInMemory [] 8589934592 8589934592 :: (nat, nat) ListInMemory) =
      Inr (map (\<lambda>i. \<lparr>ChkIdx = 0, RowIdx = word_of_nat i\<rparr>) [0..<length bigRows], bigList)"
    unfolding bigList_def
    by (rule appendRows_fresh_oneChunk) (simp_all add: bigRows_facts)
  from appendRows_reachable [OF reachable.fresh this] show ?thesis .
qed

lemma Add_list24_full: "Add slotUsage chunk99full list24 = Inr (None, listAddedFull)"
  by (simp add: list24_def chunk99full_def listAddedFull_def NewListInMemory_def listEval)

lemma reachable_listAddedFull: "reachable slotUsage listAddedFull"
  by (rule reachable.add [OF reachable_list24 Add_list24_full])

lemma Add_addedList: "Add slotUsage oneRowChunk (addedList n) = Inr (None, addedList (Suc n))"
proof -
  have r: "NumRows oneRowChunk \<noteq> 0" by (simp add: oneRowChunk_def NumRows_def)
  have ne: "chunks (addedList n) = [] \<longrightarrow> consumedIdx (addedList n) = -1"
    by (simp add: addedList_def)
  have m: "slotUsage oneRowChunk = 8"
    by (simp add: slotUsage_def oneRowChunk_def Capacity_def NumRows_def)
  from Add_nonempty [OF r ne, of slotUsage] m show ?thesis
    by (simp add: addedList_def NumRows_def oneRowChunk_def replicate_append_same)
qed

lemma reachable_addedList: "reachable slotUsage (addedList n)"
proof (induction n)
  case 0
  have "addedList 0 = NewListInMemory [] 2 4"
    by (simp add: addedList_def NewListInMemory_def NewTracker_def)
  then show ?case by (simp add: reachable.fresh)
next
  case (Suc n)
  from reachable.add [OF Suc Add_addedList] show ?case .
qed

lemma AppendRow_addedList: "AppendRow slotUsage 5 (addedList 4294967296) = Inr (\<lparr>ChkIdx = 0, RowIdx = 0\<rparr>, manyChunks)"
proof -
  let ?l = "addedList 4294967296"
  have n: "needsChunk ?l" by (simp add: needsChunk_iff addedList_def)
  have ne: "chunks ?l = [] \<longrightarrow> consumedIdx ?l = -1" by (simp add: addedList_def)
  have a: "allocChunk slotUsage ?l = (\<lparr>schema = [], rows = [], capacity = 2\<rparr>, ?l)"
    by (simp add: allocChunk_def addedList_def Renew_def oneRowChunk_def Capacity_def)
  from AppendRow_push [OF n a ne, of 5] show ?thesis
    by (simp add: addedList_def manyChunks_def Chunk_AppendRow_def uint32_wraps)
qed

lemma reachable_manyChunks: "reachable slotUsage manyChunks"
  by (rule reachable.appendRow [OF reachable_addedList AppendRow_addedList])

lemma AppendRow_manyChunks:
  "AppendRow slotUsage 6 manyChunks = Inr (\<lparr>ChkIdx = 0, RowIdx = 1\<rparr>, manyChunksReserved)"
proof -
  have n: "\<not> needsChunk manyChunks"
    by (simp add: needsChunk_iff manyChunks_def NumRows_def Capacity_def)
  from AppendRow_stay [OF n, of slotUsage 6] show ?thesis
    by (simp add: manyChunks_def manyChunksReserved_def Chunk_AppendRow_def NumRows_def uint32_wraps)
qed

lemma preAlloc4Row_manyChunks:
  "preAlloc4Row slotUsage id 6 manyChunks = Inr (\<lparr>ChkIdx = 0, RowIdx = 1\<rparr>, manyChunksReserved)"
proof -
  have n: "\<not> needsChunk4Row manyChunks"
    by (simp add: needsChunk4Row_iff manyChunks_def NumRows_def Capacity_def)
  from preAlloc4Row_stay [OF n, of slotUsage id 6] show ?thesis
    by (simp add: manyChunks_def manyChunksReserved_def preAlloc_def NumRows_def uint32_wraps)
qed

lemma Insert_manyChunksReserved:
  "Insert \<lparr>ChkIdx = 0, RowIdx = 1\<rparr> 7 manyChunksReserved = Inl IndexOutOfRange"
  by (simp add: Insert_def manyChunksReserved_def index_def nth_append insert_row_def
      oneRowChunk_def NumRows_def)

section \<open>Properties of the specification\<close>

subsection \<open>C1\<close>

text \<open>
  C1, as amended. For every sequence of at most 2^32 rows appended to a fresh list by
  AppendRow, all calls return, and reading back every returned RowPtr with GetRow, in the
  order the pointers were returned, gives the appended rows in the order of insertion.
\<close>

theorem AppendRow_then_GetRow_reads_back:
  fixes rs :: "'r list" and fieldTypes' :: "'f list"
  assumes "int (length rs) \<le> 4294967296"
  shows "readBack mu rs (NewListInMemory fieldTypes' initChunkSize' maxChunkSize') = Inr rs"
proof -
  let ?l0 = "NewListInMemory fieldTypes' initChunkSize' maxChunkSize' :: ('f, 'r) ListInMemory"
  from appendRows_total [OF listInv_fresh, of mu rs fieldTypes' initChunkSize' maxChunkSize']
  obtain ptrs l' where r: "appendRows mu rs ?l0 = Inr (ptrs, l')" by blast
  from assms have "length' ?l0 + int (length rs) \<le> 4294967296"
    by (simp add: NewListInMemory_def)
  from appendRows_getRows [OF r listInv_fresh this] r show ?thesis
    by (simp add: readBack_def)
qed

text \<open>C1 at a concrete list.\<close>

theorem AppendRow_then_GetRow_reads_back_witness:
  "int (length [1, 2, 3 :: nat]) \<le> 4294967296
   \<and> readBack slotUsage [1, 2, 3] list24 = Inr [1, 2, 3]"
  using AppendRow_then_GetRow_reads_back [of "[1, 2, 3 :: nat]" slotUsage "[]" 2 4]
  by (simp add: list24_def)

text \<open>
  C1 as it is stated fails past 2^32 rows: with initChunkSize 2^33 all rows go to the first
  chunk, the row appended after 2^32 rows gets the offset uint32(2^32) = 0 in its RowPtr,
  and GetRow reads the first row in its place.
\<close>

theorem AppendRow_then_GetRow_counterexample:
  "readBack slotUsage (bigRows @ [1])
     (NewListInMemory [] 8589934592 8589934592 :: (nat, nat) ListInMemory)
     \<noteq> Inr (bigRows @ [1])"
proof
  let ?rs = "bigRows @ [1]"
  let ?ptrs = "map (\<lambda>i. \<lparr>ChkIdx = 0, RowIdx = word_of_nat i\<rparr>) [0..<length ?rs]"
  let ?l = "oneChunkList [] 8589934592 8589934592 ?rs :: (nat, nat) ListInMemory"
  let ?fresh = "NewListInMemory [] 8589934592 8589934592 :: (nat, nat) ListInMemory"
  assume a: "readBack slotUsage ?rs ?fresh = Inr ?rs"
  have run: "appendRows slotUsage ?rs ?fresh = Inr (?ptrs, ?l)"
    by (rule appendRows_fresh_oneChunk) (simp_all add: bigRows_facts)
  from a have g: "getRows ?l ?ptrs = Inr ?rs"
    by (simp only: readBack_def run sum.case prod.case)
  have i: "4294967296 < length ?ptrs" by (simp add: bigRows_facts)
  have p: "?ptrs ! 4294967296 = \<lparr>ChkIdx = 0, RowIdx = 0\<rparr>"
    by (simp add: bigRows_facts nth_append del: upt_Suc)
  have "?rs ! 4294967296 = 1" using bigRows_facts(1) by (simp add: nth_append)
  with getRows_nth [OF g i] p have "GetRow ?l \<lparr>ChkIdx = 0, RowIdx = 0\<rparr> = Inr (1, None)"
    by simp
  moreover have "GetRow ?l \<lparr>ChkIdx = 0, RowIdx = 0\<rparr> = Inr (0, None)"
    using bigRows_facts by (simp add: GetRow_unat oneChunkList_def nth_append)
  ultimately show False by simp
qed

subsection \<open>C2\<close>

text \<open>
  C2, as amended. On a reachable list AppendRow returns. It pushes a chunk from allocChunk
  if and only if there are no chunks, or the last chunk has as many rows as its capacity,
  or the index of the last chunk is consumedIdx. When it pushes and the index of the
  previous last chunk differs from consumedIdx, the tracker receives the footprint of that
  chunk and consumedIdx becomes its index, which is greater than the consumedIdx of before:
  AppendRow charges only a chunk beyond consumedIdx, so no chunk twice. Otherwise
  consumedIdx stays and the tracker receives no charge. In all cases the row is appended to
  the last chunk and Len grows by one. When the list holds fewer than 2^32 chunks and its
  last chunk fewer than 2^32 rows, the RowPtr returned holds the index of the last chunk
  and the offset of its last row, and GetRow reads the appended row there.
\<close>

theorem AppendRow_selects_seals_appends:
  assumes "reachable mu l"
  shows "\<exists>ptr l'. AppendRow mu row l = Inr (ptr, l')
    \<and> (NumChunks l' = NumChunks l + 1) =
        (chunks l = [] \<or> Capacity (last (chunks l)) \<le> NumRows (last (chunks l))
           \<or> NumChunks l - 1 = consumedIdx l)
    \<and> (case allocChunk mu l of
          (newChk, l1) \<Rightarrow>
            if NumChunks l' = NumChunks l + 1 then
              chunks l' = chunks l @ [Chunk_AppendRow newChk row]
              \<and> freelist l' = freelist l1
              \<and> (if NumChunks l - 1 \<noteq> consumedIdx l then
                    GetMemTracker l' = Consume (mu (last (chunks l))) (GetMemTracker l1)
                    \<and> consumedIdx l' = NumChunks l - 1 \<and> consumedIdx l < consumedIdx l'
                  else GetMemTracker l' = GetMemTracker l1 \<and> consumedIdx l' = consumedIdx l)
            else
              chunks l' = butlast (chunks l) @ [Chunk_AppendRow (last (chunks l)) row]
              \<and> freelist l' = freelist l \<and> GetMemTracker l' = GetMemTracker l
              \<and> consumedIdx l' = consumedIdx l)
    \<and> Len l' = Len l + 1
    \<and> (NumChunks l < 4294967296
          \<and> (chunks l \<noteq> [] \<longrightarrow> NumRows (last (chunks l)) < 4294967296) \<longrightarrow>
        uint (ChkIdx ptr) = NumChunks l' - 1
        \<and> uint (RowIdx ptr) = NumRows (last (chunks l')) - 1
        \<and> GetRow l' ptr = Inr (row, None))"
proof -
  note inv = reachable_listInv [OF assms(1)]
  note ne = listInv_ne [OF inv]
  from inv have s: "sealedToLast l" by (simp add: listInv_def)
  have slot: "NumChunks l < 4294967296
      \<and> (chunks l \<noteq> [] \<longrightarrow> NumRows (last (chunks l)) < 4294967296) \<longrightarrow>
    uint (ChkIdx ptr) = NumChunks l' - 1
    \<and> uint (RowIdx ptr) = NumRows (last (chunks l')) - 1
    \<and> GetRow l' ptr = Inr (row, None)"
    if "AppendRow mu row l = Inr (ptr, l')" for ptr l'
    using AppendRow_slot [OF that ne] by (simp add: NumChunks_def)
  obtain newChk l1 where a: "allocChunk mu l = (newChk, l1)"
    by (cases "allocChunk mu l")
  show ?thesis
  proof (cases "needsChunk l")
    case True
    note st = AppendRow_push [OF True a ne, of row]
    from s have "int (length (chunks l)) - 1 \<noteq> consumedIdx l \<Longrightarrow>
        consumedIdx l < int (length (chunks l)) - 1"
      by (auto simp: sealedToLast_def)
    with True a slot [OF st] allocChunk_frame [OF a] show ?thesis
      by (simp add: st needsChunk_iff NumChunks_def Len_def GetMemTracker_def Consume_def)
  next
    case False
    note st = AppendRow_stay [OF False, of mu row]
    from False have c: "chunks l \<noteq> []" by (simp add: needsChunk_iff)
    with False a slot [OF st] show ?thesis
      by (simp add: st needsChunk_iff NumChunks_def Len_def GetMemTracker_def)
  qed
qed

text \<open>C2 at a concrete list.\<close>

theorem AppendRow_selects_seals_appends_witness:
  "reachable slotUsage list123 \<and> NumChunks list123 < 4294967296 \<and> chunks list123 \<noteq> []
   \<and> NumRows (last (chunks list123)) < 4294967296
   \<and> (\<exists>ptr l'. AppendRow slotUsage 4 list123 = Inr (ptr, l') \<and> Len l' = 4
         \<and> GetRow l' ptr = Inr (4, None))"
proof -
  have b: "NumChunks list123 < 4294967296" "chunks list123 \<noteq> []"
    "NumRows (last (chunks list123)) < 4294967296" "Len list123 = 3"
    by (simp_all add: list123_def NumChunks_def NumRows_def Len_def)
  from AppendRow_selects_seals_appends [OF reachable_list123, of 4] b(1,3)
  obtain ptr l' where "AppendRow slotUsage 4 list123 = Inr (ptr, l')" "Len l' = Len list123 + 1"
    "GetRow l' ptr = Inr (4, None)"
    by blast
  with b reachable_list123 show ?thesis by auto
qed

text \<open>
  C2 as it is stated fails when the last chunk holds 2^32 rows: the row is written at
  offset 2^32 and the RowPtr returned has offset uint32(2^32) = 0, the slot of the first
  row.
\<close>

theorem AppendRow_pointer_counterexample:
  "reachable slotUsage bigList
   \<and> AppendRow slotUsage 1 bigList = Inr (\<lparr>ChkIdx = 0, RowIdx = 0\<rparr>, bigList1)
   \<and> NumRows (last (chunks bigList1)) - 1 = 4294967296
   \<and> GetRow bigList1 \<lparr>ChkIdx = 0, RowIdx = 0\<rparr> = Inr (0, None)"
proof -
  have "int (length bigRows) < 8589934592" by (simp add: bigRows_facts)
  from AppendRow_oneChunk [OF bigRows_facts(2) this, of slotUsage 1 "[]" 8589934592]
  have "AppendRow slotUsage 1 bigList = Inr (\<lparr>ChkIdx = 0, RowIdx = 0\<rparr>, bigList1)"
    by (simp add: bigList_def bigList1_def bigRows_facts uint32_wraps)
  moreover have "NumRows (last (chunks bigList1)) - 1 = 4294967296"
    by (simp add: bigList1_def oneChunkList_def NumRows_def bigRows_facts)
  moreover have "GetRow bigList1 \<lparr>ChkIdx = 0, RowIdx = 0\<rparr> = Inr (0, None)"
    using bigRows_facts by (simp add: bigList1_def GetRow_unat oneChunkList_def nth_append)
  ultimately show ?thesis using reachable_bigList by simp
qed

subsection \<open>C3\<close>

text \<open>
  C3, as amended. The test of preAlloc4Row for a new chunk is the test of AppendRow in
  every list state but those whose last chunk is the chunk at consumedIdx and has fewer
  rows than its capacity. In every other state and for every row, preAlloc4Row pushes a
  chunk under the conditions under which AppendRow does, and returns the RowPtr that
  AppendRow returns from the same state (both panic where there are no chunks and
  consumedIdx is not -1). When the list then holds at most 2^32 chunks, so that the index
  of the chunk written fits the 32 bits of ChkIdx, Insert at that pointer returns and
  GetRow at the same pointer then gives the inserted row.
\<close>

theorem preAlloc4Row_agrees_with_AppendRow:
  "(needsChunk4Row l = needsChunk l) =
     (chunks l = [] \<or> consumedIdx l \<noteq> NumChunks l - 1
        \<or> Capacity (last (chunks l)) \<le> NumRows (last (chunks l)))
   \<and> (chunks l = [] \<or> consumedIdx l \<noteq> NumChunks l - 1
        \<or> Capacity (last (chunks l)) \<le> NumRows (last (chunks l)) \<longrightarrow>
       (if chunks l = [] \<and> consumedIdx l \<noteq> -1 then
          AppendRow mu row l = Inl IndexOutOfRange
          \<and> preAlloc4Row mu ph row l = Inl IndexOutOfRange
        else
          (\<exists>ptr la lp. AppendRow mu row l = Inr (ptr, la)
             \<and> preAlloc4Row mu ph row l = Inr (ptr, lp)
             \<and> NumChunks lp = NumChunks la
             \<and> (NumChunks lp = NumChunks l + 1) = needsChunk l
             \<and> (NumChunks lp \<le> 4294967296 \<longrightarrow>
                  (\<exists>lf. Insert ptr row' lp = Inr lf \<and> GetRow lf ptr = Inr (row', None))))))"
proof (intro conjI impI)
  show "(needsChunk4Row l = needsChunk l) =
     (chunks l = [] \<or> consumedIdx l \<noteq> NumChunks l - 1
        \<or> Capacity (last (chunks l)) \<le> NumRows (last (chunks l)))"
    by (auto simp: needsChunk_iff needsChunk4Row_iff NumChunks_def)
next
  assume agree: "chunks l = [] \<or> consumedIdx l \<noteq> NumChunks l - 1
        \<or> Capacity (last (chunks l)) \<le> NumRows (last (chunks l))"
  then have same: "needsChunk4Row l = needsChunk l"
    by (auto simp: needsChunk_iff needsChunk4Row_iff NumChunks_def)
  show "if chunks l = [] \<and> consumedIdx l \<noteq> -1 then
          AppendRow mu row l = Inl IndexOutOfRange
          \<and> preAlloc4Row mu ph row l = Inl IndexOutOfRange
        else
          (\<exists>ptr la lp. AppendRow mu row l = Inr (ptr, la)
             \<and> preAlloc4Row mu ph row l = Inr (ptr, lp)
             \<and> NumChunks lp = NumChunks la
             \<and> (NumChunks lp = NumChunks l + 1) = needsChunk l
             \<and> (NumChunks lp \<le> 4294967296 \<longrightarrow>
                  (\<exists>lf. Insert ptr row' lp = Inr lf \<and> GetRow lf ptr = Inr (row', None))))"
  proof (cases "chunks l = [] \<and> consumedIdx l \<noteq> -1")
    case True
    then show ?thesis by (simp add: AppendRow_panic preAlloc4Row_panic)
  next
    case False
    then have ne: "chunks l = [] \<longrightarrow> consumedIdx l = -1" by auto
    obtain newChk l1 where a: "allocChunk mu l = (newChk, l1)"
      by (cases "allocChunk mu l")
    have fill: "NumChunks lp \<le> 4294967296 \<longrightarrow>
        (\<exists>lf. Insert ptr row' lp = Inr lf \<and> GetRow lf ptr = Inr (row', None))"
      if st: "preAlloc4Row mu ph row l = Inr (ptr, lp)" for ptr lp
    proof
      assume "NumChunks lp \<le> 4294967296"
      then have "int (length (chunks lp)) \<le> 4294967296" by (simp add: NumChunks_def)
      from preAlloc4Row_addresses_slot [OF st ne this]
      obtain r where "GetRow lp ptr = Inr (r, None)" by blast
      from Insert_GetRow [OF this, of row']
      show "\<exists>lf. Insert ptr row' lp = Inr lf \<and> GetRow lf ptr = Inr (row', None)" .
    qed
    show ?thesis
    proof (cases "needsChunk l")
      case True
      with same have t4: "needsChunk4Row l" by simp
      note sa = AppendRow_push [OF True a ne, of row]
      note sp = preAlloc4Row_push [OF t4 a ne, of ph row]
      from fill [OF sp] False True show ?thesis
        by (simp add: sa sp NumChunks_def)
    next
      case nn: False
      with same have f4: "\<not> needsChunk4Row l" by simp
      from nn have c: "chunks l \<noteq> []" by (simp add: needsChunk_iff)
      note sa = AppendRow_stay [OF nn, of mu row]
      note sp = preAlloc4Row_stay [OF f4, of mu ph row]
      from fill [OF sp] False nn c show ?thesis
        by (simp add: sa sp NumChunks_def)
    qed
  qed
qed

text \<open>C3 at a concrete list, whose last chunk is the chunk at consumedIdx and is full.\<close>

theorem preAlloc4Row_agrees_with_AppendRow_witness:
  "reachable slotUsage listAddedFull
   \<and> consumedIdx listAddedFull = NumChunks listAddedFull - 1
   \<and> Capacity (last (chunks listAddedFull)) \<le> NumRows (last (chunks listAddedFull))
   \<and> needsChunk4Row listAddedFull = needsChunk listAddedFull
   \<and> (\<exists>ptr la lp. AppendRow slotUsage 4 listAddedFull = Inr (ptr, la)
         \<and> preAlloc4Row slotUsage id 4 listAddedFull = Inr (ptr, lp)
         \<and> NumChunks lp = 2
         \<and> (\<exists>lf. Insert ptr 7 lp = Inr lf \<and> GetRow lf ptr = Inr (7, None)))"
proof -
  have b: "consumedIdx listAddedFull = NumChunks listAddedFull - 1"
    "Capacity (last (chunks listAddedFull)) \<le> NumRows (last (chunks listAddedFull))"
    "chunks listAddedFull \<noteq> []" "NumChunks listAddedFull = 1" "needsChunk listAddedFull"
    by (simp_all add: listAddedFull_def NumChunks_def NumRows_def Capacity_def needsChunk_iff)
  note t = preAlloc4Row_agrees_with_AppendRow
    [where l = listAddedFull and mu = slotUsage and row = 4 and ph = id and row' = 7]
  from t b(2) have same: "needsChunk4Row listAddedFull = needsChunk listAddedFull" by blast
  from t b(2,3)
  obtain ptr la lp where r: "AppendRow slotUsage 4 listAddedFull = Inr (ptr, la)"
    "preAlloc4Row slotUsage id 4 listAddedFull = Inr (ptr, lp)"
    "(NumChunks lp = NumChunks listAddedFull + 1) = needsChunk listAddedFull"
    "NumChunks lp \<le> 4294967296 \<longrightarrow>
       (\<exists>lf. Insert ptr 7 lp = Inr lf \<and> GetRow lf ptr = Inr (7, None))"
    by auto
  from r(3) b(4,5) have n: "NumChunks lp = 2" by simp
  with r(4) have "\<exists>lf. Insert ptr 7 lp = Inr lf \<and> GetRow lf ptr = Inr (7, None)" by simp
  with r(1,2) n b(1,2) same reachable_listAddedFull show ?thesis by blast
qed

text \<open>
  C3 as it is stated fails in two states. After Add of a chunk that is not full, the last
  chunk is the chunk at consumedIdx and below its capacity: AppendRow pushes a chunk and
  returns the pointer (1, 0), while preAlloc4Row, whose condition has no third disjunct,
  writes into the added chunk and returns (0, 2). On a list of 2^32 + 1 chunks both return
  the same pointer, but its chunk index uint32(2^32) is 0: the pointer (0, 1) addresses no
  row of the first chunk, which holds one row, and Insert there is out of range.
\<close>

theorem preAlloc4Row_counterexample:
  "reachable slotUsage listAdded
   \<and> needsChunk listAdded \<and> \<not> needsChunk4Row listAdded
   \<and> AppendRow slotUsage 1 listAdded =
       Inr (\<lparr>ChkIdx = 1, RowIdx = 0\<rparr>,
            listAdded\<lparr>chunks := chunks listAdded @ [\<lparr>schema = [], rows = [1], capacity = 4\<rparr>],
                       length' := 3\<rparr>)
   \<and> preAlloc4Row slotUsage id 1 listAdded =
       Inr (\<lparr>ChkIdx = 0, RowIdx = 2\<rparr>,
            listAdded\<lparr>chunks := [\<lparr>schema = [], rows = [9, 9, 1], capacity = 5\<rparr>],
                       length' := 3\<rparr>)
   \<and> reachable slotUsage manyChunks
   \<and> AppendRow slotUsage 6 manyChunks = Inr (\<lparr>ChkIdx = 0, RowIdx = 1\<rparr>, manyChunksReserved)
   \<and> preAlloc4Row slotUsage id 6 manyChunks = Inr (\<lparr>ChkIdx = 0, RowIdx = 1\<rparr>, manyChunksReserved)
   \<and> NumChunks manyChunksReserved = 4294967297
   \<and> Insert \<lparr>ChkIdx = 0, RowIdx = 1\<rparr> 7 manyChunksReserved = Inl IndexOutOfRange"
proof -
  have "needsChunk listAdded \<and> \<not> needsChunk4Row listAdded
   \<and> AppendRow slotUsage 1 listAdded =
       Inr (\<lparr>ChkIdx = 1, RowIdx = 0\<rparr>,
            listAdded\<lparr>chunks := chunks listAdded @ [\<lparr>schema = [], rows = [1], capacity = 4\<rparr>],
                       length' := 3\<rparr>)
   \<and> preAlloc4Row slotUsage id 1 listAdded =
       Inr (\<lparr>ChkIdx = 0, RowIdx = 2\<rparr>,
            listAdded\<lparr>chunks := [\<lparr>schema = [], rows = [9, 9, 1], capacity = 5\<rparr>],
                       length' := 3\<rparr>)"
    by (simp add: listAdded_def preAlloc4Row_def needsChunk4Row_def preAlloc_def listEval)
  moreover have "NumChunks manyChunksReserved = 4294967297"
    by (simp add: NumChunks_def manyChunksReserved_def)
  ultimately show ?thesis
    using reachable_listAdded reachable_manyChunks AppendRow_manyChunks preAlloc4Row_manyChunks
      Insert_manyChunksReserved
    by simp
qed

subsection \<open>C4\<close>

text \<open>
  C4, as amended. In every state that AppendRow, Add and Reset reach from a fresh list,
  consumedIdx lies between -1 and NumChunks - 1, and the total of the tracker is the sum
  of the footprints of chunks[0..consumedIdx] plus the sum of the footprints of the chunks
  in the freelist. No chunk that Add brought lies beyond consumedIdx: at most the last
  chunk does, and Add leaves consumedIdx at the index of the chunk it has added.
\<close>

theorem tracker_total_of_reachable:
  assumes "reachable mu l"
  shows "-1 \<le> consumedIdx l \<and> consumedIdx l \<le> NumChunks l - 1
    \<and> BytesConsumed (GetMemTracker l) =
        sum_list (map mu (take (nat (consumedIdx l + 1)) (chunks l)))
          + sum_list (map mu (freelist l))
    \<and> NumChunks l - 2 \<le> consumedIdx l
    \<and> (\<forall>chk l'. Add mu chk l = Inr (None, l') \<longrightarrow> consumedIdx l' = NumChunks l' - 1)"
proof -
  from reachable_listInv [OF assms] have s: "sealedToLast l"
    and ch: "BytesConsumed (memTracker l) = chargedTotal mu l"
    by (simp_all add: listInv_def)
  have "consumedIdx l' = NumChunks l' - 1" if a: "Add mu chk l = Inr (None, l')" for chk l'
  proof -
    from a have "NumRows chk \<noteq> 0" by (auto simp: Add_def)
    from Add_nonempty [OF this sealedToLast_empty [OF s], of mu] a show ?thesis
      by (auto simp: NumChunks_def)
  qed
  moreover have "chunks l \<noteq> [] \<Longrightarrow> 1 \<le> int (length (chunks l))"
    by (cases "chunks l") simp_all
  ultimately show ?thesis
    using s ch
    by (auto simp: sealedToLast_def chargedTotal_def GetMemTracker_def NumChunks_def)
qed

text \<open>C4 at a concrete list.\<close>

theorem tracker_total_of_reachable_witness:
  "reachable slotUsage list123 \<and> consumedIdx list123 = 0 \<and> NumChunks list123 = 2
   \<and> BytesConsumed (GetMemTracker list123) = 16
   \<and> sum_list (map slotUsage (take (nat (consumedIdx list123 + 1)) (chunks list123)))
        + sum_list (map slotUsage (freelist list123)) = 16"
proof -
  have "sum_list (map slotUsage (take (nat (consumedIdx list123 + 1)) (chunks list123)))
        + sum_list (map slotUsage (freelist list123)) = 16"
    by (simp add: list123_def slotUsage_def Capacity_def NumRows_def)
  moreover have "consumedIdx list123 = 0" "NumChunks list123 = 2"
    by (simp_all add: list123_def NumChunks_def)
  ultimately show ?thesis
    using tracker_total_of_reachable [OF reachable_list123] reachable_list123 by simp
qed

text \<open>
  C4 as it is stated fails after Reset: AppendRow and then Reset on a fresh list leave no
  chunks, so that the sum over chunks[0..consumedIdx] and over any chunk beyond it is 0,
  while the tracker holds the 16 bytes of the chunk that went to the freelist.
\<close>

theorem tracker_total_counterexample:
  "reachable slotUsage list1reset \<and> chunks list1reset = [] \<and> consumedIdx list1reset = -1
   \<and> BytesConsumed (GetMemTracker list1reset) = 16
   \<and> BytesConsumed (GetMemTracker list1reset) \<noteq>
        sum_list (map slotUsage (take (nat (consumedIdx list1reset + 1)) (chunks list1reset)))
          + sum_list (map slotUsage (drop (nat (consumedIdx list1reset + 1)) (chunks list1reset)))"
  using reachable_list1reset
  by (simp add: list1reset_def BytesConsumed_def GetMemTracker_def)

subsection \<open>C5\<close>

text \<open>
  C5. Add with a chunk of zero rows returns the empty-chunk error and the list it was
  given: Len, NumChunks, the chunks, consumedIdx and the tracker are those of before the
  call. On a reachable list, Add with a chunk of at least one row returns nil.
\<close>

theorem Add_empty_chunk_is_atomic:
  "(NumRows chk = 0 \<longrightarrow> Add mu chk l = Inr (Some ErrEmptyChunk, l))
   \<and> (reachable mu l \<and> 0 < NumRows chk \<longrightarrow> (\<exists>l'. Add mu chk l = Inr (None, l')))"
proof (intro conjI impI)
  assume "NumRows chk = 0"
  then show "Add mu chk l = Inr (Some ErrEmptyChunk, l)" by (rule Add_empty)
next
  assume "reachable mu l \<and> 0 < NumRows chk"
  then have "NumRows chk \<noteq> 0" and "chunks l = [] \<longrightarrow> consumedIdx l = -1"
    using reachable_ne [of mu l] by simp_all
  from Add_nonempty [OF this, of mu] show "\<exists>l'. Add mu chk l = Inr (None, l')"
    by simp
qed

text \<open>C5 at a concrete list.\<close>

theorem Add_empty_chunk_is_atomic_witness:
  "NumRows chunk0 = 0 \<and> Add slotUsage chunk0 list123 = Inr (Some ErrEmptyChunk, list123)
   \<and> reachable slotUsage list123 \<and> 0 < NumRows chunk99
   \<and> (\<exists>l'. Add slotUsage chunk99 list123 = Inr (None, l'))"
proof -
  have a: "NumRows chunk0 = 0" by (simp add: chunk0_def NumRows_def)
  have b: "0 < NumRows chunk99" by (simp add: chunk99_def NumRows_def)
  from a b reachable_list123
    Add_empty_chunk_is_atomic [of chunk0 slotUsage list123]
    Add_empty_chunk_is_atomic [of chunk99 slotUsage list123]
  show ?thesis by blast
qed

subsection \<open>C6\<close>

text \<open>
  C6. In every state that AppendRow, Add and Reset reach from a fresh list, Len is the sum
  of NumRowsOfChunk over the chunks of the list; and N calls of AppendRow on a fresh list
  return, and leave a list of length N.
\<close>

theorem Len_is_sum_of_NumRowsOfChunk:
  "(reachable mu l \<longrightarrow> sumNumRows l (nat (NumChunks l)) = Inr (Len l))
   \<and> (\<exists>ptrs l'. appendRows mu rs (NewListInMemory fieldTypes' initChunkSize' maxChunkSize')
                   = Inr (ptrs, l')
          \<and> Len l' = int (length rs) \<and> sumNumRows l' (nat (NumChunks l')) = Inr (Len l'))"
proof
  show "reachable mu l \<longrightarrow> sumNumRows l (nat (NumChunks l)) = Inr (Len l)"
    using reachable_listInv [of mu l] by (auto simp: sumNumRows_all Len_def listInv_def)
next
  let ?l0 = "NewListInMemory fieldTypes' initChunkSize' maxChunkSize' :: ('a, 'b) ListInMemory"
  from appendRows_total [OF listInv_fresh, of mu rs fieldTypes' initChunkSize' maxChunkSize']
  obtain ptrs l' where r: "appendRows mu rs ?l0 = Inr (ptrs, l')" "listInv mu l'"
    "length' l' = length' ?l0 + int (length rs)"
    by blast
  then have "Len l' = int (length rs)" by (simp add: Len_def NewListInMemory_def)
  moreover have "sumNumRows l' (nat (NumChunks l')) = Inr (Len l')"
    using r(2) by (simp add: sumNumRows_all Len_def listInv_def)
  ultimately show "\<exists>ptrs l'. appendRows mu rs ?l0 = Inr (ptrs, l')
          \<and> Len l' = int (length rs) \<and> sumNumRows l' (nat (NumChunks l')) = Inr (Len l')"
    using r(1) by blast
qed

text \<open>C6 at a concrete list.\<close>

theorem Len_is_sum_of_NumRowsOfChunk_witness:
  "reachable slotUsage list123
   \<and> sumNumRows list123 (nat (NumChunks list123)) = Inr (Len list123) \<and> Len list123 = 3"
  using Len_is_sum_of_NumRowsOfChunk [of slotUsage list123] reachable_list123
  by (simp add: list123_def Len_def)

subsection \<open>C7\<close>

text \<open>
  C7. allocChunk, when the freelist is not empty, takes its last chunk, gives the negated
  footprint of that chunk to the tracker and returns the chunk reset, with the capacity it
  had; otherwise, when there are chunks, it returns a chunk of capacity
  min (2 * capacity of the last chunk) maxChunkSize with the schema of the last chunk;
  otherwise a chunk of capacity initChunkSize. The chunk returned has no rows, is not among
  the chunks, and the tracker has received no charge for it.
\<close>

theorem allocChunk_policy:
  "(case allocChunk mu l of
      (chk, l') \<Rightarrow>
        (if freelist l \<noteq> [] then
           chk = Chunk_Reset (last (freelist l)) \<and> Capacity chk = Capacity (last (freelist l))
             \<and> freelist l' = butlast (freelist l)
             \<and> GetMemTracker l' = Consume (- mu (last (freelist l))) (GetMemTracker l)
         else if chunks l \<noteq> [] then
           Capacity chk = min (2 * Capacity (last (chunks l))) (maxChunkSize l)
             \<and> schema chk = schema (last (chunks l)) \<and> l' = l
         else Capacity chk = initChunkSize l \<and> schema chk = fieldTypes l \<and> l' = l)
        \<and> NumRows chk = 0 \<and> chunks l' = chunks l \<and> consumedIdx l' = consumedIdx l
        \<and> Len l' = Len l)"
proof (cases "freelist l" rule: rev_cases)
  case Nil
  then show ?thesis
    by (cases "chunks l" rule: rev_cases)
       (simp_all add: allocChunk_def Renew_def New_def NumRows_def Capacity_def)
next
  case (snoc fl c)
  then show ?thesis
    by (simp add: allocChunk_def Let_def Chunk_Reset_def NumRows_def Capacity_def Consume_def
        GetMemTracker_def Len_def)
qed

text \<open>C7 at a concrete list.\<close>

theorem allocChunk_policy_witness:
  "allocChunk slotUsage list1reset =
     (\<lparr>schema = [], rows = [], capacity = 2\<rparr>,
      list1reset\<lparr>freelist := [], memTracker := [16, -16]\<rparr>)
   \<and> Capacity (fst (allocChunk slotUsage list123)) = 4
   \<and> snd (allocChunk slotUsage list123) = list123
   \<and> Capacity (fst (allocChunk slotUsage list24)) = 2
   \<and> NumRows (fst (allocChunk slotUsage list24)) = 0"
proof -
  obtain c1 l1 where a1: "allocChunk slotUsage list1reset = (c1, l1)"
    by (cases "allocChunk slotUsage list1reset")
  obtain c2 l2 where a2: "allocChunk slotUsage list123 = (c2, l2)"
    by (cases "allocChunk slotUsage list123")
  obtain c3 l3 where a3: "allocChunk slotUsage list24 = (c3, l3)"
    by (cases "allocChunk slotUsage list24")
  have f1: "freelist list1reset \<noteq> []" by (simp add: list1reset_def)
  have f2: "freelist list123 = []" "chunks list123 \<noteq> []" by (simp_all add: list123_def)
  have f3: "freelist list24 = []" "chunks list24 = []"
    by (simp_all add: list24_def NewListInMemory_def)
  from allocChunk_policy [where mu = slotUsage and l = list1reset] a1 f1
  have "c1 = Chunk_Reset (last (freelist list1reset))"
    "freelist l1 = butlast (freelist list1reset)"
    "GetMemTracker l1 = Consume (- slotUsage (last (freelist list1reset))) (GetMemTracker list1reset)"
    "chunks l1 = chunks list1reset" "consumedIdx l1 = consumedIdx list1reset" "Len l1 = Len list1reset"
    by simp_all
  then have r1: "c1 = \<lparr>schema = [], rows = [], capacity = 2\<rparr>"
    "freelist l1 = []" "memTracker l1 = [16, -16]" "chunks l1 = []" "consumedIdx l1 = -1"
    "length' l1 = 0"
    by (simp_all add: list1reset_def Chunk_Reset_def Consume_def slotUsage_def Capacity_def
        NumRows_def GetMemTracker_def Len_def)
  from allocChunk_policy [where mu = slotUsage and l = list123] a2 f2
  have r2: "Capacity c2 = min (2 * Capacity (last (chunks list123))) (maxChunkSize list123)"
    "l2 = list123"
    by simp_all
  from allocChunk_policy [where mu = slotUsage and l = list24] a3 f3
  have r3: "Capacity c3 = initChunkSize list24" "NumRows c3 = 0"
    by simp_all
  have fr: "fieldTypes l1 = fieldTypes list1reset \<and> initChunkSize l1 = initChunkSize list1reset
      \<and> maxChunkSize l1 = maxChunkSize list1reset"
    using allocChunk_frame [OF a1] by simp
  have "l1 = list1reset\<lparr>freelist := [], memTracker := [16, -16]\<rparr>"
    using r1 fr by (cases l1) (simp add: list1reset_def)
  with r1 r2 r3 a1 a2 a3 show ?thesis
    by (simp add: list123_def list24_def NewListInMemory_def Capacity_def)
qed

subsection \<open>C8\<close>

text \<open>
  C8. On a reachable list, Reset charges the footprint of the last chunk if and only if
  consumedIdx differs from the index of the last chunk, appends the chunks to the freelist
  behind what the freelist held, and leaves no chunks, Len 0 and consumedIdx -1. On a
  fresh list Reset charges nothing and leaves Len 0 and NumChunks 0.
\<close>

theorem Reset_seals_and_retires:
  "(reachable mu l \<longrightarrow>
      (\<exists>l'. Reset mu l = Inr l'
         \<and> memTracker l' =
             (if consumedIdx l \<noteq> int (length (chunks l)) - 1
              then Consume (mu (last (chunks l))) (memTracker l) else memTracker l)
         \<and> freelist l' = freelist l @ chunks l
         \<and> chunks l' = [] \<and> NumChunks l' = 0 \<and> Len l' = 0 \<and> consumedIdx l' = -1))
   \<and> (\<exists>l'. Reset mu (NewListInMemory fieldTypes' initChunkSize' maxChunkSize') = Inr l'
         \<and> memTracker l' = NewTracker \<and> Len l' = 0 \<and> NumChunks l' = 0)"
proof (intro conjI impI)
  assume "reachable mu l"
  then have "chunks l = [] \<longrightarrow> consumedIdx l = -1" by (rule reachable_ne)
  from Reset_ok [OF this, of mu]
  show "\<exists>l'. Reset mu l = Inr l'
         \<and> memTracker l' =
             (if consumedIdx l \<noteq> int (length (chunks l)) - 1
              then Consume (mu (last (chunks l))) (memTracker l) else memTracker l)
         \<and> freelist l' = freelist l @ chunks l
         \<and> chunks l' = [] \<and> NumChunks l' = 0 \<and> Len l' = 0 \<and> consumedIdx l' = -1"
    by (auto simp: Consume_def NumChunks_def Len_def)
next
  let ?l0 = "NewListInMemory fieldTypes' initChunkSize' maxChunkSize' :: ('a, 'b) ListInMemory"
  have "chunks ?l0 = [] \<longrightarrow> consumedIdx ?l0 = -1" by (simp add: NewListInMemory_def)
  from Reset_ok [OF this, of mu]
  show "\<exists>l'. Reset mu ?l0 = Inr l' \<and> memTracker l' = NewTracker \<and> Len l' = 0 \<and> NumChunks l' = 0"
    by (simp add: NewListInMemory_def Len_def NumChunks_def)
qed

text \<open>C8 at a concrete list.\<close>

theorem Reset_seals_and_retires_witness:
  "reachable slotUsage list123
   \<and> (\<exists>l'. Reset slotUsage list123 = Inr l' \<and> memTracker l' = [16, 32]
         \<and> freelist l' = chunks list123 \<and> chunks l' = [] \<and> Len l' = 0
         \<and> consumedIdx l' = -1)"
proof -
  have m: "(if consumedIdx list123 \<noteq> int (length (chunks list123)) - 1
            then Consume (slotUsage (last (chunks list123))) (memTracker list123)
            else memTracker list123) = [16, 32]"
    by (simp add: list123_def Consume_def slotUsage_def Capacity_def NumRows_def)
  have f: "freelist list123 @ chunks list123 = chunks list123"
    by (simp add: list123_def)
  from Reset_seals_and_retires [of slotUsage list123] reachable_list123
  obtain l' where "Reset slotUsage list123 = Inr l'"
    "memTracker l' =
       (if consumedIdx list123 \<noteq> int (length (chunks list123)) - 1
        then Consume (slotUsage (last (chunks list123))) (memTracker list123)
        else memTracker list123)"
    "freelist l' = freelist list123 @ chunks list123"
    "chunks l' = []" "Len l' = 0" "consumedIdx l' = -1"
    by blast
  with m f reachable_list123 show ?thesis by auto
qed

subsection \<open>C9\<close>

text \<open>
  C9. On every reachable list and for every visitor, Walk is the walk over the rows of the
  list in the order of the chunks and, within a chunk, of the offsets, which stops at the
  first failure. With a visitor that keeps the rows it is called on: if the visitor
  answers nil on every row, Walk returns nil and the rows visited are all the rows, Len of
  them; if the visitor first fails on the row at position k of that order, counted from 0,
  Walk returns that failure wrapped by Trace and the rows visited are the first k + 1 rows,
  so that no later row is visited.
\<close>

theorem Walk_visits_in_order_until_failure:
  assumes "reachable mu l"
  shows "Walk walkFunc l s = Inr (visitInOrder walkFunc (allRows l) s)
    \<and> int (length (allRows l)) = Len l
    \<and> (list_all (\<lambda>a. a = None) (answers walkFunc (allRows l) s) \<longrightarrow>
          (\<exists>s'. Walk (recording walkFunc) l (s, []) = Inr (None, (s', allRows l))))
    \<and> (k < length (allRows l) \<and> answers walkFunc (allRows l) s ! k = Some e
          \<and> (\<forall>i<k. answers walkFunc (allRows l) s ! i = None) \<longrightarrow>
          (\<exists>s'. Walk (recording walkFunc) l (s, [])
                  = Inr (Some (Trace e), (s', take (Suc k) (allRows l)))))"
proof (intro conjI impI)
  show "Walk walkFunc l s = Inr (visitInOrder walkFunc (allRows l) s)"
    by (rule Walk_visitInOrder)
next
  show "int (length (allRows l)) = Len l"
    using listInv_allRows [OF reachable_listInv [OF assms]] by (simp add: Len_def)
next
  assume "list_all (\<lambda>a. a = None) (answers walkFunc (allRows l) s)"
  from visitInOrder_all_succeed [OF this, of "[]"]
  show "\<exists>s'. Walk (recording walkFunc) l (s, []) = Inr (None, (s', allRows l))"
    by (simp add: Walk_visitInOrder)
next
  assume "k < length (allRows l) \<and> answers walkFunc (allRows l) s ! k = Some e
          \<and> (\<forall>i<k. answers walkFunc (allRows l) s ! i = None)"
  then have 1: "k < length (allRows l)" and 2: "answers walkFunc (allRows l) s ! k = Some e"
    and 3: "\<forall>i<k. answers walkFunc (allRows l) s ! i = None"
    by simp_all
  from visitInOrder_first_failure [OF 1 2 3, of "[]"]
  show "\<exists>s'. Walk (recording walkFunc) l (s, [])
                  = Inr (Some (Trace e), (s', take (Suc k) (allRows l)))"
    by (simp add: Walk_visitInOrder)
qed

text \<open>C9 at a concrete list.\<close>

theorem Walk_visits_in_order_until_failure_witness:
  "reachable slotUsage list12345 \<and> Len list12345 = 7
   \<and> (\<exists>s'. Walk (recording failOn5) list12345 (0, [])
              = Inr (Some (Trace ''five''), (s', [1, 2, 3, 4, 5])))
   \<and> reachable slotUsage list123 \<and> Len list123 = 3
   \<and> (\<exists>s'. Walk (recording failOn5) list123 (0, []) = Inr (None, (s', [1, 2, 3])))"
proof -
  have none: "\<forall>i<4. answers failOn5 (allRows list12345) 0 ! i = None"
  proof (intro allI impI)
    fix i :: nat assume "i < 4"
    then have "i = 0 \<or> i = 1 \<or> i = 2 \<or> i = 3" by linarith
    then show "answers failOn5 (allRows list12345) 0 ! i = None"
      by (auto simp: answers_examples)
  qed
  have k: "4 < length (allRows list12345)"
    by (simp add: allRows_examples)
  have e: "answers failOn5 (allRows list12345) 0 ! 4 = Some ''five''"
    by (simp add: answers_examples)
  have ok: "list_all (\<lambda>a. a = None) (answers failOn5 (allRows list123) 0)"
    by (simp add: answers_examples)
  from Walk_visits_in_order_until_failure [OF reachable_list12345, of failOn5 0 4 "''five''"]
    k e none
  have a: "int (length (allRows list12345)) = Len list12345"
    "\<exists>s'. Walk (recording failOn5) list12345 (0, [])
              = Inr (Some (Trace ''five''), (s', take (Suc 4) (allRows list12345)))"
    by simp_all
  from Walk_visits_in_order_until_failure [OF reachable_list123, of failOn5 0] ok
  have b: "int (length (allRows list123)) = Len list123"
    "\<exists>s'. Walk (recording failOn5) list123 (0, []) = Inr (None, (s', allRows list123))"
    by simp_all
  from a b reachable_list12345 reachable_list123 show ?thesis
    by (simp add: allRows_examples)
qed

subsection \<open>C10\<close>

text \<open>
  C10. In a reachable state with no chunks, consumedIdx is -1, so Add with a non-empty
  chunk skips the sealing branch and does not panic: the tracker receives the footprint
  of the incoming chunk and nothing else, and afterwards consumedIdx is 0, which is
  NumChunks - 1.
\<close>

theorem Add_on_empty_list:
  assumes "reachable mu l" and "chunks l = []" and "0 < NumRows chk"
  shows "consumedIdx l = -1
    \<and> (\<exists>l'. Add mu chk l = Inr (None, l') \<and> memTracker l' = Consume (mu chk) (memTracker l)
          \<and> BytesConsumed (memTracker l') - BytesConsumed (memTracker l) = mu chk
          \<and> chunks l' = [chk] \<and> consumedIdx l' = 0 \<and> NumChunks l' - 1 = 0)"
proof -
  from assms(1,2) have c: "consumedIdx l = -1" by (simp add: reachable_ne)
  from assms(3) have "NumRows chk \<noteq> 0" by simp
  from Add_nonempty [OF this, of l mu] c assms(2) show ?thesis
    by (simp add: Consume_def BytesConsumed_def NumChunks_def)
qed

text \<open>C10 at a concrete list.\<close>

theorem Add_on_empty_list_witness:
  "reachable slotUsage list1reset \<and> chunks list1reset = [] \<and> 0 < NumRows chunk99
   \<and> consumedIdx list1reset = -1
   \<and> (\<exists>l'. Add slotUsage chunk99 list1reset = Inr (None, l')
         \<and> memTracker l' = [16, 40] \<and> chunks l' = [chunk99] \<and> consumedIdx l' = 0)"
proof -
  note r = reachable_list1reset
  have e: "chunks list1reset = []" by (simp add: list1reset_def)
  have n: "0 < NumRows chunk99" by (simp add: chunk99_def NumRows_def)
  have m: "Consume (slotUsage chunk99) (memTracker list1reset) = [16, 40]"
    by (simp add: Consume_def slotUsage_def chunk99_def list1reset_def Capacity_def NumRows_def)
  from Add_on_empty_list [OF r e n] r e n m show ?thesis by auto
qed

end
